theory Spec2Isabelle
  imports Complex_Main "HOL-Library.AList"
begin

section \<open>Python values shared by the model\<close>

text \<open>
  The model covers \<^verbatim>\<open>Simulator/src/timetable.py\<close> and the service filter pass of
  \<^verbatim>\<open>Simulator/src/simulator.py\<close>. A text is a list of characters with code points below
  256; digits and letter case are those of ASCII. Every exception
  the Python can raise in the modelled code is a value of \<open>error\<close>; a function that can
  raise returns \<open>error + 'a\<close> with \<open>Inl\<close> for the exception.
\<close>

datatype error = IndexError | KeyError | TypeError | AssertionError | UnboundLocalError
  | AttributeError | ValueError

definition bind_e :: "error + 'a \<Rightarrow> ('a \<Rightarrow> error + 'b) \<Rightarrow> error + 'b" where
  "bind_e m f = (case m of Inl e \<Rightarrow> Inl e | Inr x \<Rightarrow> f x)"

fun mapM_e :: "('a \<Rightarrow> error + 'b) \<Rightarrow> 'a list \<Rightarrow> error + 'b list" where
  "mapM_e f [] = Inr []"
| "mapM_e f (x # xs) =
     (case f x of Inl e \<Rightarrow> Inl e
      | Inr y \<Rightarrow> (case mapM_e f xs of Inl e \<Rightarrow> Inl e | Inr ys \<Rightarrow> Inr (y # ys)))"

subsection \<open>Characters and strings\<close>

definition is_digit :: "char \<Rightarrow> bool" where
  "is_digit c = (48 \<le> (of_char c :: nat) \<and> (of_char c :: nat) \<le> 57)"

definition digit_val :: "char \<Rightarrow> nat" where
  "digit_val c = (of_char c :: nat) - 48"

text \<open>\<^verbatim>\<open>str.isspace\<close>, which \<^verbatim>\<open>str.strip\<close> and the \<^verbatim>\<open>\s\<close> of a pattern use: tab,
  line feed, vertical tab, form feed, carriage return, the four separators 28..31, the
  blank, the next-line control U+0085 and the no-break space U+00A0.\<close>

definition is_space :: "char \<Rightarrow> bool" where
  "is_space c = ((9 \<le> (of_char c :: nat) \<and> (of_char c :: nat) \<le> 13)
     \<or> (28 \<le> (of_char c :: nat) \<and> (of_char c :: nat) \<le> 32)
     \<or> (of_char c :: nat) = 133 \<or> (of_char c :: nat) = 160)"

definition strip :: "string \<Rightarrow> string" where
  "strip s = rev (dropWhile is_space (rev (dropWhile is_space s)))"

section \<open>Time codec: \<^verbatim>\<open>StationEvent._timeToMinutes\<close>\<close>

text \<open>
  \<^verbatim>\<open>datetime.strptime\<close> compiles a format into a regular expression, matches it at the
  start of the text and raises \<^verbatim>\<open>ValueError\<close> when text remains after the match. The
  directives used are
  \<^verbatim>\<open>%H = 2[0-3]|[0-1]\d|\d\<close>, \<^verbatim>\<open>%M = [0-5]\d|\d\<close> and \<^verbatim>\<open>%S = 6[0-1]|[0-5]\d|\d\<close>,
  alternatives tried from left to right. Each of the functions below returns the number
  read and the rest of the text. A directive followed by the literal colon gains nothing
  from backtracking into a shorter alternative (the next character would be a digit), and
  the last directive is followed by the check that nothing remains, so ordered choice is
  the whole behaviour.
\<close>

fun re_H :: "string \<Rightarrow> (nat \<times> string) option" where
  "re_H (c1 # c2 # r) =
     (if c1 = CHR ''2'' \<and> is_digit c2 \<and> digit_val c2 \<le> 3 then Some (20 + digit_val c2, r)
      else if is_digit c1 \<and> digit_val c1 \<le> 1 \<and> is_digit c2
        then Some (10 * digit_val c1 + digit_val c2, r)
      else if is_digit c1 then Some (digit_val c1, c2 # r)
      else None)"
| "re_H [c1] = (if is_digit c1 then Some (digit_val c1, []) else None)"
| "re_H [] = None"

fun re_M :: "string \<Rightarrow> (nat \<times> string) option" where
  "re_M (c1 # c2 # r) =
     (if is_digit c1 \<and> digit_val c1 \<le> 5 \<and> is_digit c2
        then Some (10 * digit_val c1 + digit_val c2, r)
      else if is_digit c1 then Some (digit_val c1, c2 # r)
      else None)"
| "re_M [c1] = (if is_digit c1 then Some (digit_val c1, []) else None)"
| "re_M [] = None"

fun re_S :: "string \<Rightarrow> (nat \<times> string) option" where
  "re_S (c1 # c2 # r) =
     (if c1 = CHR ''6'' \<and> is_digit c2 \<and> digit_val c2 \<le> 1 then Some (60 + digit_val c2, r)
      else if is_digit c1 \<and> digit_val c1 \<le> 5 \<and> is_digit c2
        then Some (10 * digit_val c1 + digit_val c2, r)
      else if is_digit c1 then Some (digit_val c1, c2 # r)
      else None)"
| "re_S [c1] = (if is_digit c1 then Some (digit_val c1, []) else None)"
| "re_S [] = None"

fun expect_colon :: "string \<Rightarrow> string option" where
  "expect_colon (c # r) = (if c = CHR '':'' then Some r else None)"
| "expect_colon [] = None"

text \<open>\<^verbatim>\<open>datetime.strptime(s, "%H:%M")\<close>: hour and minute, or \<open>None\<close> for the
  \<^verbatim>\<open>ValueError\<close>.\<close>

definition strptime_HM :: "string \<Rightarrow> (nat \<times> nat) option" where
  "strptime_HM s =
     (case re_H s of None \<Rightarrow> None
      | Some (h, r1) \<Rightarrow>
     (case expect_colon r1 of None \<Rightarrow> None
      | Some r2 \<Rightarrow>
     (case re_M r2 of None \<Rightarrow> None
      | Some (m, r3) \<Rightarrow> if r3 = [] then Some (h, m) else None)))"

text \<open>\<^verbatim>\<open>datetime.strptime(s, "%H:%M:%S")\<close>. The expression for \<^verbatim>\<open>%S\<close> admits 60 and
  61, which the \<^verbatim>\<open>datetime\<close> constructor then refuses with \<^verbatim>\<open>ValueError\<close>.\<close>

definition strptime_HMS :: "string \<Rightarrow> (nat \<times> nat \<times> nat) option" where
  "strptime_HMS s =
     (case re_H s of None \<Rightarrow> None
      | Some (h, r1) \<Rightarrow>
     (case expect_colon r1 of None \<Rightarrow> None
      | Some r2 \<Rightarrow>
     (case re_M r2 of None \<Rightarrow> None
      | Some (m, r3) \<Rightarrow>
     (case expect_colon r3 of None \<Rightarrow> None
      | Some r4 \<Rightarrow>
     (case re_S r4 of None \<Rightarrow> None
      | Some (sec, r5) \<Rightarrow> if r5 = [] \<and> sec \<le> 59 then Some (h, m, sec) else None)))))"

text \<open>
  \<^verbatim>\<open>minutes = t.hour * 60 + t.minute + t.second / 60\<close>, then the wrap-around at 165.
  Python computes the quotient in binary floating point; the model keeps the exact
  rational. The two agree whenever the seconds are zero, and the comparison with 165
  has the same outcome in both, since the fraction is below one.
\<close>

definition minutes_since_midnight :: "nat \<Rightarrow> nat \<Rightarrow> nat \<Rightarrow> rat" where
  "minutes_since_midnight h m sec = of_nat (h * 60 + m) + of_nat sec / 60"

definition wrap_around :: "rat \<Rightarrow> rat" where
  "wrap_around minutes = (if minutes < 165 then minutes + 1440 else minutes)"

definition timeToMinutes :: "string \<Rightarrow> rat option" where
  "timeToMinutes time_str =
     (if time_str = [] then None
      else (case strptime_HMS (strip time_str) of
              Some (h, m, sec) \<Rightarrow> Some (wrap_around (minutes_since_midnight h m sec))
            | None \<Rightarrow>
                (case strptime_HM (strip time_str) of
                   Some (h, m) \<Rightarrow> Some (wrap_around (minutes_since_midnight h m 0))
                 | None \<Rightarrow> None)))"

text \<open>The clock text of an hour and a minute in two digits each, and with seconds.\<close>

definition two_digits :: "nat \<Rightarrow> string" where
  "two_digits n = [char_of (48 + n div 10), char_of (48 + n mod 10)]"

definition clock_HM :: "nat \<Rightarrow> nat \<Rightarrow> string" where
  "clock_HM h m = two_digits h @ CHR '':'' # two_digits m"

definition clock_HMS :: "nat \<Rightarrow> nat \<Rightarrow> nat \<Rightarrow> string" where
  "clock_HMS h m sec = two_digits h @ CHR '':'' # two_digits m @ CHR '':'' # two_digits sec"

subsection \<open>Two-digit clock texts are read back\<close>

lemma of_char_digit: "d < 10 \<Longrightarrow> (of_char (char_of (48 + d :: nat)) :: nat) = 48 + d"
  by (simp add: of_char_of)

lemma is_digit_char_of: "d < 10 \<Longrightarrow> is_digit (char_of (48 + d :: nat))"
  by (simp add: is_digit_def of_char_digit)

lemma digit_val_char_of: "d < 10 \<Longrightarrow> digit_val (char_of (48 + d :: nat)) = d"
  by (simp add: digit_val_def of_char_digit)

lemma not_space_char_of: "d < 10 \<Longrightarrow> \<not> is_space (char_of (48 + d :: nat))"
  by (simp add: is_space_def of_char_digit)

lemma char_of_eq_2: "d < 10 \<Longrightarrow> (char_of (48 + d :: nat) = CHR ''2'') = (d = 2)"
proof -
  assume d: "d < 10"
  have "(char_of (48 + d :: nat) = CHR ''2'') = ((of_char (char_of (48 + d :: nat)) :: nat) = of_char (CHR ''2''))"
    by (metis of_char_eq_iff)
  then show ?thesis using d by (simp add: of_char_digit)
qed

lemma char_of_eq_6: "d < 10 \<Longrightarrow> (char_of (48 + d :: nat) = CHR ''6'') = (d = 6)"
proof -
  assume d: "d < 10"
  have "(char_of (48 + d :: nat) = CHR ''6'') = ((of_char (char_of (48 + d :: nat)) :: nat) = of_char (CHR ''6''))"
    by (metis of_char_eq_iff)
  then show ?thesis using d by (simp add: of_char_digit)
qed

lemma re_H_two_digits: "h < 24 \<Longrightarrow> re_H (two_digits h @ r) = Some (h, r)"
proof -
  assume h: "h < 24"
  have a: "h div 10 < 10" "h mod 10 < 10" using h by auto
  have b: "h div 10 = 2 \<Longrightarrow> h mod 10 \<le> 3" using h by presburger
  have c: "h div 10 \<noteq> 2 \<Longrightarrow> h div 10 \<le> 1" using h by presburger
  have d: "10 * (h div 10) + h mod 10 = h" by simp
  have e: "h div 10 = 2 \<Longrightarrow> 20 + h mod 10 = h" using d by presburger
  show ?thesis using a b c d e
    by (auto simp add: two_digits_def is_digit_char_of digit_val_char_of char_of_eq_2)
qed

lemma re_M_two_digits: "m < 60 \<Longrightarrow> re_M (two_digits m @ r) = Some (m, r)"
proof -
  assume m: "m < 60"
  have a: "m div 10 < 10" "m mod 10 < 10" "m div 10 \<le> 5" using m by auto
  show ?thesis using a
    by (auto simp add: two_digits_def is_digit_char_of digit_val_char_of)
qed

lemma re_S_two_digits: "s < 60 \<Longrightarrow> re_S (two_digits s @ r) = Some (s, r)"
proof -
  assume m: "s < 60"
  have a: "s div 10 < 10" "s mod 10 < 10" "s div 10 \<le> 5" using m by auto
  show ?thesis using a
    by (auto simp add: two_digits_def is_digit_char_of digit_val_char_of char_of_eq_6)
qed

lemma strip_clock:
  "\<not> is_space a \<Longrightarrow> \<not> is_space b \<Longrightarrow> strip (a # xs @ [b]) = a # xs @ [b]"
  by (simp add: strip_def)

lemma two_digits_shape:
  "n < 100 \<Longrightarrow> \<exists>a b. two_digits n = [a, b] \<and> \<not> is_space a \<and> \<not> is_space b"
  by (simp add: two_digits_def not_space_char_of)

lemma strip_clock_HM: "h < 24 \<Longrightarrow> m < 60 \<Longrightarrow> strip (clock_HM h m) = clock_HM h m"
proof -
  assume "h < 24" "m < 60"
  then obtain a b c d where "two_digits h = [a, b]" "\<not> is_space a"
      "two_digits m = [c, d]" "\<not> is_space d"
    using two_digits_shape [of h] two_digits_shape [of m] by force
  then show ?thesis
    using strip_clock [of a d "[b, CHR '':'', c]"] by (simp add: clock_HM_def)
qed

lemma strip_clock_HMS:
  "h < 24 \<Longrightarrow> m < 60 \<Longrightarrow> sec < 60 \<Longrightarrow> strip (clock_HMS h m sec) = clock_HMS h m sec"
proof -
  assume "h < 24" "m < 60" "sec < 60"
  then obtain a b c d e f where "two_digits h = [a, b]" "\<not> is_space a"
      "two_digits m = [c, d]" "two_digits sec = [e, f]" "\<not> is_space f"
    using two_digits_shape [of h] two_digits_shape [of m] two_digits_shape [of sec] by force
  then show ?thesis
    using strip_clock [of a f "[b, CHR '':'', c, d, CHR '':'', e]"] by (simp add: clock_HMS_def)
qed

lemma strptime_HM_clock: "h < 24 \<Longrightarrow> m < 60 \<Longrightarrow> strptime_HM (clock_HM h m) = Some (h, m)"
  using re_M_two_digits [of m "[]"]
  by (simp add: strptime_HM_def clock_HM_def re_H_two_digits)

lemma strptime_HMS_clock_HM: "h < 24 \<Longrightarrow> m < 60 \<Longrightarrow> strptime_HMS (clock_HM h m) = None"
  using re_M_two_digits [of m "[]"]
  by (simp add: strptime_HMS_def clock_HM_def re_H_two_digits)

lemma strptime_HMS_clock:
  "h < 24 \<Longrightarrow> m < 60 \<Longrightarrow> sec < 60 \<Longrightarrow> strptime_HMS (clock_HMS h m sec) = Some (h, m, sec)"
  using re_S_two_digits [of sec "[]"]
  by (simp add: strptime_HMS_def clock_HMS_def re_H_two_digits re_M_two_digits)

lemma clock_nonempty: "clock_HM h m \<noteq> []" "clock_HMS h m sec \<noteq> []"
  by (simp_all add: clock_HM_def clock_HMS_def two_digits_def)

lemma strptime_empty: "strptime_HMS (strip []) = None" "strptime_HM (strip []) = None"
  by (simp_all add: strptime_HMS_def strptime_HM_def strip_def)

text \<open>
  Claim C3. For every clock text that \<^verbatim>\<open>strptime\<close> reads as \<^verbatim>\<open>%H:%M:%S\<close> or as
  \<^verbatim>\<open>%H:%M\<close>, the codec returns the minutes since midnight plus 1440 when they are
  below 165 and unchanged otherwise; a text read in neither format gives \<open>None\<close>. In
  particular every two-digit clock text \<open>HH:MM\<close> and \<open>HH:MM:SS\<close> of a valid time of day
  is read, \<^verbatim>\<open>"01:10"\<close> gives 1510 and \<^verbatim>\<open>"08:00"\<close> gives 480.
\<close>

theorem timeToMinutes_wraparound:
  "(strptime_HMS (strip s) = Some (h, m, sec) \<longrightarrow>
      timeToMinutes s = Some (if minutes_since_midnight h m sec < 165
                              then minutes_since_midnight h m sec + 1440
                              else minutes_since_midnight h m sec))
   \<and> (strptime_HMS (strip s) = None \<longrightarrow> strptime_HM (strip s) = Some (h, m) \<longrightarrow>
      timeToMinutes s = Some (if minutes_since_midnight h m 0 < 165
                              then minutes_since_midnight h m 0 + 1440
                              else minutes_since_midnight h m 0))
   \<and> (strptime_HMS (strip s) = None \<longrightarrow> strptime_HM (strip s) = None \<longrightarrow>
      timeToMinutes s = None)
   \<and> (h < 24 \<longrightarrow> m < 60 \<longrightarrow>
      timeToMinutes (clock_HM h m) =
        Some (if h * 60 + m < 165 then of_nat (h * 60 + m) + 1440 else of_nat (h * 60 + m)))
   \<and> (h < 24 \<longrightarrow> m < 60 \<longrightarrow> sec < 60 \<longrightarrow>
      timeToMinutes (clock_HMS h m sec) =
        Some (if minutes_since_midnight h m sec < 165
              then minutes_since_midnight h m sec + 1440
              else minutes_since_midnight h m sec))
   \<and> timeToMinutes ''01:10'' = Some 1510 \<and> timeToMinutes ''08:00'' = Some 480"
proof (intro conjI impI)
  assume "strptime_HMS (strip s) = Some (h, m, sec)"
  then show "timeToMinutes s = Some (if minutes_since_midnight h m sec < 165
      then minutes_since_midnight h m sec + 1440 else minutes_since_midnight h m sec)"
    using strptime_empty(1) by (cases "s = []") (auto simp add: timeToMinutes_def wrap_around_def)
next
  assume "strptime_HMS (strip s) = None" "strptime_HM (strip s) = Some (h, m)"
  then show "timeToMinutes s = Some (if minutes_since_midnight h m 0 < 165
      then minutes_since_midnight h m 0 + 1440 else minutes_since_midnight h m 0)"
    using strptime_empty(2) by (cases "s = []") (auto simp add: timeToMinutes_def wrap_around_def)
next
  assume "strptime_HMS (strip s) = None" "strptime_HM (strip s) = None"
  then show "timeToMinutes s = None"
    by (simp add: timeToMinutes_def)
next
  assume "h < 24" "m < 60"
  then have "timeToMinutes (clock_HM h m) = Some (wrap_around (minutes_since_midnight h m 0))"
    by (simp add: timeToMinutes_def clock_nonempty strip_clock_HM strptime_HMS_clock_HM
        strptime_HM_clock)
  moreover have "minutes_since_midnight h m 0 = of_nat (h * 60 + m)"
    by (simp add: minutes_since_midnight_def)
  moreover have "((of_nat (h * 60 + m) :: rat) < 165) = (h * 60 + m < 165)"
    using of_nat_less_iff [of "h * 60 + m" 165, where ?'a = rat] by simp
  ultimately show "timeToMinutes (clock_HM h m) =
      Some (if h * 60 + m < 165 then of_nat (h * 60 + m) + 1440 else of_nat (h * 60 + m))"
    by (simp add: wrap_around_def)
next
  assume "h < 24" "m < 60" "sec < 60"
  then show "timeToMinutes (clock_HMS h m sec) =
      Some (if minutes_since_midnight h m sec < 165
            then minutes_since_midnight h m sec + 1440 else minutes_since_midnight h m sec)"
    by (simp add: timeToMinutes_def clock_nonempty strip_clock_HMS strptime_HMS_clock
        wrap_around_def)
next
  show "timeToMinutes ''01:10'' = Some 1510"
    by (simp add: timeToMinutes_def strptime_HMS_def strptime_HM_def strip_def is_space_def
        is_digit_def digit_val_def wrap_around_def minutes_since_midnight_def)
next
  show "timeToMinutes ''08:00'' = Some 480"
    by (simp add: timeToMinutes_def strptime_HMS_def strptime_HM_def strip_def is_space_def
        is_digit_def digit_val_def wrap_around_def minutes_since_midnight_def)
qed

lemmas codec_eval = timeToMinutes_def strptime_HMS_def strptime_HM_def strip_def is_space_def
  is_digit_def digit_val_def wrap_around_def minutes_since_midnight_def

theorem timeToMinutes_wraparound_witness:
  "timeToMinutes '' 02:44:30'' = Some (3209 / 2) \<and> timeToMinutes ''2:45'' = Some 165
   \<and> timeToMinutes ''24:00'' = None \<and> timeToMinutes (clock_HM 1 10) = Some 1510
   \<and> timeToMinutes (clock_HMS 8 0 30) = Some (961 / 2)"
proof -
  have a: "strptime_HMS (strip '' 02:44:30'') = Some (2, 44, 30)" by (simp add: codec_eval)
  have b: "strptime_HMS (strip ''2:45'') = None" "strptime_HM (strip ''2:45'') = Some (2, 45)"
    by (simp_all add: codec_eval)
  have c: "strptime_HMS (strip ''24:00'') = None" "strptime_HM (strip ''24:00'') = None"
    by (simp_all add: codec_eval)
  show ?thesis
    using a b c timeToMinutes_wraparound [of "'' 02:44:30''" 2 44 30]
      timeToMinutes_wraparound [of "''2:45''" 2 45 0]
      timeToMinutes_wraparound [of "''24:00''" 0 0 0]
      timeToMinutes_wraparound [of "[]" 1 10 0]
      timeToMinutes_wraparound [of "[]" 8 0 30]
    by (simp add: minutes_since_midnight_def)
qed

subsection \<open>Range of the codec\<close>

lemma digit_val_le: "is_digit c \<Longrightarrow> digit_val c \<le> 9"
  unfolding is_digit_def digit_val_def by linarith

lemma re_H_bound: "re_H s = Some (h, r) \<Longrightarrow> h < 24"
  by (cases s rule: re_H.cases) (auto split: if_splits dest: digit_val_le)

lemma re_M_bound: "re_M s = Some (m, r) \<Longrightarrow> m < 60"
  by (cases s rule: re_M.cases) (auto split: if_splits dest: digit_val_le)

lemma strptime_HM_bound: "strptime_HM s = Some (h, m) \<Longrightarrow> h < 24 \<and> m < 60"
  by (auto simp add: strptime_HM_def split: option.splits prod.splits if_splits
      dest: re_H_bound re_M_bound)

lemma strptime_HMS_bound: "strptime_HMS s = Some (h, m, sec) \<Longrightarrow> h < 24 \<and> m < 60 \<and> sec < 60"
  by (auto simp add: strptime_HMS_def split: option.splits prod.splits if_splits
      dest: re_H_bound re_M_bound)

lemma minutes_bounds:
  assumes "h < 24" "m < 60" "sec < 60"
  shows "0 \<le> minutes_since_midnight h m sec \<and> minutes_since_midnight h m sec < 1440"
proof -
  have "h * 60 + m \<le> 1439" using assms by simp
  then have a: "(of_nat (h * 60 + m) :: rat) \<le> 1439"
    using of_nat_le_iff [of "h * 60 + m" 1439, where ?'a = rat] by simp
  have "(of_nat sec :: rat) < 60"
    using assms of_nat_less_iff [of sec 60, where ?'a = rat] by simp
  then have b: "(of_nat sec :: rat) / 60 < 1" by simp
  have c: "0 \<le> (of_nat sec :: rat) / 60" by simp
  have d: "0 \<le> (of_nat (h * 60 + m) :: rat)" by simp
  show ?thesis using a b c d unfolding minutes_since_midnight_def
    by (intro conjI; linarith)
qed

lemma wrap_around_range: "0 \<le> x \<Longrightarrow> x < 1440 \<Longrightarrow> 165 \<le> wrap_around x \<and> wrap_around x < 1605"
  by (simp add: wrap_around_def)

text \<open>
  Claim C10. Whenever the codec returns a value, that value is at least 165 and below
  1605.
\<close>

theorem timeToMinutes_range: "timeToMinutes s = Some t \<Longrightarrow> 165 \<le> t \<and> t < 1605"
proof -
  assume a: "timeToMinutes s = Some t"
  have "\<exists>h m sec. h < 24 \<and> m < 60 \<and> sec < 60
      \<and> t = wrap_around (minutes_since_midnight h m sec)"
  proof (cases "strptime_HMS (strip s)")
    case None
    then obtain h m where "strptime_HM (strip s) = Some (h, m)"
        "t = wrap_around (minutes_since_midnight h m 0)"
      using a by (auto simp add: timeToMinutes_def split: if_splits option.splits)
    then show ?thesis using strptime_HM_bound [of "strip s" h m]
      by (intro exI [of _ h] exI [of _ m] exI [of _ 0]) simp
  next
    case (Some p)
    obtain h m sec where p: "p = (h, m, sec)" by (cases p) auto
    then have "strptime_HMS (strip s) = Some (h, m, sec)"
        "t = wrap_around (minutes_since_midnight h m sec)"
      using a Some by (auto simp add: timeToMinutes_def split: if_splits)
    then show ?thesis using strptime_HMS_bound [of "strip s" h m sec] by blast
  qed
  then obtain h m sec where hm: "h < 24" "m < 60" "sec < 60"
      and t: "t = wrap_around (minutes_since_midnight h m sec)"
    by blast
  show ?thesis using minutes_bounds [OF hm] wrap_around_range t by blast
qed

theorem timeToMinutes_range_witness:
  "timeToMinutes ''02:44:59'' = Some (96299 / 60) \<and> (165 :: rat) \<le> 96299 / 60 \<and> (96299 / 60 :: rat) < 1605"
proof -
  have a: "timeToMinutes ''02:44:59'' = Some (96299 / 60)" by (simp add: codec_eval)
  show ?thesis using a timeToMinutes_range [OF a] by simp
qed

section \<open>Electrification requirement: \<^verbatim>\<open>TimeTableParser.extractACRequirement\<close>\<close>

text \<open>Python's \<^verbatim>\<open>sub in s\<close> on strings: \<open>sub\<close> occurs as a contiguous run of \<open>s\<close>.\<close>

fun starts_with :: "string \<Rightarrow> string \<Rightarrow> bool" where
  "starts_with [] s = True"
| "starts_with (p # ps) [] = False"
| "starts_with (p # ps) (c # cs) = (p = c \<and> starts_with ps cs)"

fun contains :: "string \<Rightarrow> string \<Rightarrow> bool" where
  "contains sub [] = (sub = [])"
| "contains sub (c # cs) = (starts_with sub (c # cs) \<or> contains sub cs)"

text \<open>The test of the loop body on the stripped cell.\<close>

definition ac_keyword :: "string \<Rightarrow> bool" where
  "ac_keyword cell =
     (contains ''Air'' (strip cell) \<or> contains ''Condition'' (strip cell)
      \<or> contains ''AC'' (strip cell))"

text \<open>
  The loop over the cells of the column with the counter \<^verbatim>\<open>isAC\<close>: each pass first
  returns \<^verbatim>\<open>True\<close> when the counter is 1, then counts the cell. The \<^verbatim>\<open>return False\<close>
  after the loop is the empty case.
\<close>

fun extractAC_loop :: "int \<Rightarrow> string list \<Rightarrow> bool" where
  "extractAC_loop isAC [] = False"
| "extractAC_loop isAC (cell # cells) =
     (if isAC = 1 then True
      else if ac_keyword cell then extractAC_loop (isAC + 1) cells
      else extractAC_loop isAC cells)"

definition extractACRequirement :: "string list \<Rightarrow> bool" where
  "extractACRequirement serviceCol = extractAC_loop (- 1) serviceCol"

lemma extractAC_loop_iff:
  "isAC \<le> 1 \<Longrightarrow>
   extractAC_loop isAC cells =
     (\<exists>pre post. cells = pre @ post \<and> post \<noteq> []
        \<and> 1 \<le> isAC + int (length (filter ac_keyword pre)))"
proof (induction cells arbitrary: isAC)
  case Nil
  then show ?case by simp
next
  case (Cons cell cells)
  show ?case
  proof (cases "isAC = 1")
    case True
    have "cell # cells = [] @ (cell # cells) \<and> cell # cells \<noteq> []
        \<and> 1 \<le> isAC + int (length (filter ac_keyword []))"
      using True by simp
    then have "\<exists>pre post. cell # cells = pre @ post \<and> post \<noteq> []
        \<and> 1 \<le> isAC + int (length (filter ac_keyword pre))"
      by blast
    then show ?thesis using True by simp
  next
    case False
    then have lt: "isAC < 1" using Cons.prems by simp
    define k where "k = (if ac_keyword cell then isAC + 1 else isAC)"
    have k: "k \<le> 1" using lt by (simp add: k_def)
    have step: "extractAC_loop isAC (cell # cells) = extractAC_loop k cells"
      using False by (simp add: k_def)
    have "(\<exists>pre post. cell # cells = pre @ post \<and> post \<noteq> []
            \<and> 1 \<le> isAC + int (length (filter ac_keyword pre)))
        = (\<exists>pre post. cells = pre @ post \<and> post \<noteq> []
            \<and> 1 \<le> k + int (length (filter ac_keyword pre)))" (is "?L = ?R")
    proof
      assume ?L
      then obtain pre post where p: "cell # cells = pre @ post" "post \<noteq> []"
          "1 \<le> isAC + int (length (filter ac_keyword pre))" by blast
      then have "pre \<noteq> []" using lt by auto
      then obtain pre' where pre': "pre = cell # pre'" using p(1) by (cases pre) auto
      then have "cells = pre' @ post" using p(1) by simp
      moreover have "1 \<le> k + int (length (filter ac_keyword pre'))"
        using p(3) pre' by (simp add: k_def split: if_splits)
      ultimately show ?R using p(2) by blast
    next
      assume ?R
      then obtain pre post where p: "cells = pre @ post" "post \<noteq> []"
          "1 \<le> k + int (length (filter ac_keyword pre))" by blast
      have "cell # cells = (cell # pre) @ post" using p(1) by simp
      moreover have "1 \<le> isAC + int (length (filter ac_keyword (cell # pre)))"
        using p(3) by (simp add: k_def split: if_splits)
      ultimately show ?L using p(2) by blast
    qed
    then show ?thesis using step Cons.IH [OF k] by simp
  qed
qed

text \<open>
  What the detector computes: the keyword occurs in two cells, and a further cell follows
  the second of them.
\<close>

lemma extractACRequirement_iff:
  "extractACRequirement serviceCol =
     (\<exists>pre post. serviceCol = pre @ post \<and> post \<noteq> []
        \<and> 2 \<le> length (filter ac_keyword pre))"
proof -
  have "\<And>pre. (1 \<le> - 1 + int (length (filter ac_keyword pre)))
      = (2 \<le> length (filter ac_keyword pre))" by linarith
  then show ?thesis
    using extractAC_loop_iff [of "- 1" serviceCol] by (simp add: extractACRequirement_def)
qed

text \<open>
  Claim C8 (amended). The detector scans every cell of the column, not only its header
  region (the first six cells, which \<^verbatim>\<open>extractServiceHeader\<close> reads). For a column whose
  last cell carries no keyword it answers \<open>True\<close> exactly when the keyword occurs in at
  least two cells of the column; a column with at most one keyword cell is never marked.
\<close>

theorem extractACRequirement_two_hits:
  "((serviceCol = [] \<or> \<not> ac_keyword (last serviceCol)) \<longrightarrow>
      extractACRequirement serviceCol = (2 \<le> length (filter ac_keyword serviceCol)))
   \<and> (length (filter ac_keyword serviceCol) \<le> 1 \<longrightarrow> \<not> extractACRequirement serviceCol)"
proof (intro conjI impI)
  assume a: "serviceCol = [] \<or> \<not> ac_keyword (last serviceCol)"
  show "extractACRequirement serviceCol = (2 \<le> length (filter ac_keyword serviceCol))"
  proof
    assume "extractACRequirement serviceCol"
    then obtain pre post where "serviceCol = pre @ post" "2 \<le> length (filter ac_keyword pre)"
      using extractACRequirement_iff [of serviceCol] by blast
    then show "2 \<le> length (filter ac_keyword serviceCol)" by simp
  next
    assume two: "2 \<le> length (filter ac_keyword serviceCol)"
    then have ne: "serviceCol \<noteq> []" by auto
    then have split: "serviceCol = butlast serviceCol @ [last serviceCol]" by simp
    have "filter ac_keyword serviceCol
        = filter ac_keyword (butlast serviceCol) @ filter ac_keyword [last serviceCol]"
      using ne by (metis append_butlast_last_id filter_append)
    also have "\<dots> = filter ac_keyword (butlast serviceCol)"
      using a ne by simp
    finally have "2 \<le> length (filter ac_keyword (butlast serviceCol))" using two by simp
    then show "extractACRequirement serviceCol"
      using split extractACRequirement_iff [of serviceCol] by blast
  qed
next
  assume one: "length (filter ac_keyword serviceCol) \<le> 1"
  show "\<not> extractACRequirement serviceCol"
  proof
    assume "extractACRequirement serviceCol"
    then obtain pre post where "serviceCol = pre @ post" "2 \<le> length (filter ac_keyword pre)"
      using extractACRequirement_iff [of serviceCol] by blast
    then show False using one by simp
  qed
qed

lemmas ac_eval = extractACRequirement_def ac_keyword_def strip_def is_space_def

theorem extractACRequirement_two_hits_witness:
  "extractACRequirement [''93001'', ''AC'', ''12 CAR'', ''Air Conditioned'', ''08:00'']
   \<and> \<not> extractACRequirement [''93001'', ''AC LOCAL'', ''12 CAR'', ''08:00'']"
  using extractACRequirement_two_hits
      [of "[''93001'', ''AC'', ''12 CAR'', ''Air Conditioned'', ''08:00'']"]
    extractACRequirement_two_hits [of "[''93001'', ''AC LOCAL'', ''12 CAR'', ''08:00'']"]
  by (simp add: ac_keyword_def strip_def is_space_def)

text \<open>
  The claim as stated fails both ways. The first column has no keyword in its header
  region and is marked, by two keyword cells further down. The second column has the
  keyword in two header cells and is not marked, because the second of them is the last
  cell and the counter is tested before the cell is counted.
\<close>

theorem extractACRequirement_counterexample:
  "extractACRequirement [''93001'', ''12 CAR'', ''nan'', ''nan'', ''nan'', ''nan'',
      ''AC'', ''Air Conditioned'', ''08:00''] = True
   \<and> filter ac_keyword (take 6 [''93001'', ''12 CAR'', ''nan'', ''nan'', ''nan'', ''nan'',
      ''AC'', ''Air Conditioned'', ''08:00'']) = []
   \<and> extractACRequirement [''93001'', ''AC'', ''12 CAR'', ''Air Conditioned''] = False
   \<and> length (filter ac_keyword [''93001'', ''AC'', ''12 CAR'', ''Air Conditioned'']) = 2"
  by (simp add: ac_eval)

section \<open>Data model\<close>

text \<open>
  A service identifier is a Python \<^verbatim>\<open>int\<close> (the five-digit number) or a \<^verbatim>\<open>str\<close> (the
  \<^verbatim>\<open>ETY\<close> token). The two never compare equal in Python, as the two constructors
  never do here.
\<close>

datatype sid = IntId int | StrId string

datatype RakeLinkStatus = VALID | INVALID

datatype Direction = UP | DOWN

text \<open>
  \<^verbatim>\<open>StationEvent\<close>: the station name, the value of the time codec (\<open>None\<close> when the
  text is no time) and the render flag. The fields \<^verbatim>\<open>platform\<close> and \<^verbatim>\<open>eType\<close> are
  always \<^verbatim>\<open>None\<close> in the source (the constructor ignores its \<^verbatim>\<open>type\<close> argument).
\<close>

record StationEvent =
  atStation :: string
  atTime :: "rat option"
  ev_render :: bool

record Service =
  serviceId :: "sid list"
  direction :: "Direction option"
  rakeSizeReq :: "nat option"
  needsACRake :: bool
  linkedTo :: "string option"
  events :: "StationEvent list"
  svc_render :: bool

record Rake =
  rakeId :: nat
  isAC :: bool
  rakeSize :: nat

text \<open>
  \<^verbatim>\<open>RakeCycle\<close>. A Python reference to a \<^verbatim>\<open>Service\<close> object is the position of that
  service in \<^verbatim>\<open>TimeTable.suburbanServices\<close>; \<open>servicePath\<close> is \<open>None\<close> for Python's
  \<^verbatim>\<open>None\<close>.
\<close>

record RakeCycle =
  rake :: "Rake option"
  status :: RakeLinkStatus
  linkName :: string
  serviceIds :: "sid list"
  undefinedIds :: "(string \<times> sid) list"
  servicePath :: "nat list option"
  rc_render :: bool
  lengthKm :: rat

record TimeTable =
  suburbanServices :: "Service list"
  allCyclesWtt :: "nat list list"
  rakecycles :: "RakeCycle list"
  conflictingLinks :: "(RakeCycle \<times> sid list) list"

text \<open>The constructors \<^verbatim>\<open>StationEvent.__init__\<close>, \<^verbatim>\<open>Service.__init__\<close>, \<^verbatim>\<open>Rake.__init__\<close>
  and \<^verbatim>\<open>RakeCycle.__init__\<close>. An unset \<^verbatim>\<open>serviceId\<close> is the empty list.\<close>

definition new_StationEvent :: "string \<Rightarrow> string \<Rightarrow> StationEvent" where
  "new_StationEvent st time = \<lparr>atStation = st, atTime = timeToMinutes time, ev_render = True\<rparr>"

definition new_Service :: Service where
  "new_Service = \<lparr>serviceId = [], direction = None, rakeSizeReq = None, needsACRake = False,
     linkedTo = None, events = [], svc_render = True\<rparr>"

definition new_Rake :: "nat \<Rightarrow> Rake" where
  "new_Rake i = \<lparr>rakeId = i, isAC = False, rakeSize = 12\<rparr>"

definition new_RakeCycle :: "string \<Rightarrow> RakeCycle" where
  "new_RakeCycle name = \<lparr>rake = None, status = VALID, linkName = name, serviceIds = [],
     undefinedIds = [], servicePath = None, rc_render = True, lengthKm = 0\<rparr>"

section \<open>Length computation: \<^verbatim>\<open>Service.computeLengthKm\<close>\<close>

definition distanceMap :: "(string \<times> rat) list" where
  "distanceMap =
    [(''CHURCHGATE'', 0), (''MARINE LINES'', 2), (''CHARNI ROAD'', 3), (''GRANT ROAD'', 4),
     (''M'' @ [CHR 0x27] @ ''BAI CENTRAL(L)'', 5), (''MAHALAKSHMI'', 6), (''LOWER PAREL'', 8),
     (''PRABHADEVI'', 9), (''DADAR'', 11), (''MATUNGA ROAD'', 23 / 2), (''MAHIM JN.'', 12),
     (''BANDRA'', 15), (''KHAR ROAD'', 17), (''SANTA CRUZ'', 18), (''VILE PARLE'', 20),
     (''ANDHERI'', 22), (''JOGESHWARI'', 24), (''RAM MANDIR'', 51 / 2), (''GOREGAON'', 27),
     (''MALAD'', 30), (''KANDIVALI'', 32), (''BORIVALI'', 34), (''DAHISAR'', 37),
     (''MIRA ROAD'', 40), (''BHAYANDAR'', 44), (''NAIGAON'', 48), (''VASAI ROAD'', 52),
     (''NALLASOPARA'', 56), (''VIRAR'', 60)]"

text \<open>\<^verbatim>\<open>TimeTableParser.distanceMap[name]\<close>, with the \<^verbatim>\<open>KeyError\<close> of a missing key.\<close>

definition distance_of :: "string \<Rightarrow> error + rat" where
  "distance_of name = (case map_of distanceMap name of None \<Rightarrow> Inl KeyError | Some d \<Rightarrow> Inr d)"

text \<open>The loop over \<^verbatim>\<open>self.events[1:]\<close> with the running \<^verbatim>\<open>l\<close> and \<^verbatim>\<open>dprev\<close>.\<close>

fun computeLength_loop :: "rat \<Rightarrow> rat \<Rightarrow> StationEvent list \<Rightarrow> error + rat" where
  "computeLength_loop l dprev [] = Inr l"
| "computeLength_loop l dprev (e # es) =
     (case distance_of (atStation e) of
        Inl err \<Rightarrow> Inl err
      | Inr dCCGKm \<Rightarrow> computeLength_loop (l + \<bar>dprev - dCCGKm\<bar>) dCCGKm es)"

text \<open>The value the method stores in \<^verbatim>\<open>self.lengthKm\<close>; \<^verbatim>\<open>self.events[0]\<close> raises
  \<^verbatim>\<open>IndexError\<close> on an empty list.\<close>

definition computeLengthKm :: "Service \<Rightarrow> error + rat" where
  "computeLengthKm svc =
     (case events svc of
        [] \<Rightarrow> Inl IndexError
      | e0 # es \<Rightarrow>
          (case distance_of (atStation e0) of
             Inl err \<Rightarrow> Inl err
           | Inr dprev \<Rightarrow> computeLength_loop 0 dprev es))"

text \<open>The chainage of an event's station, for stations of the distance map.\<close>

definition chainage :: "StationEvent \<Rightarrow> rat" where
  "chainage e = the (map_of distanceMap (atStation e))"

definition known_station :: "StationEvent \<Rightarrow> bool" where
  "known_station e = (map_of distanceMap (atStation e) \<noteq> None)"

text \<open>The sum of the absolute differences of consecutive entries.\<close>

definition consecutive_sum :: "rat list \<Rightarrow> rat" where
  "consecutive_sum ds = (\<Sum>i < length ds - 1. \<bar>ds ! i - ds ! Suc i\<bar>)"

lemma consecutive_sum_Cons:
  "consecutive_sum (a # b # ds) = \<bar>a - b\<bar> + consecutive_sum (b # ds)"
proof -
  have "(\<Sum>i < Suc (length ds). \<bar>(a # b # ds) ! i - (b # ds) ! i\<bar>)
      = \<bar>(a # b # ds) ! 0 - (b # ds) ! 0\<bar>
        + (\<Sum>i < length ds. \<bar>(a # b # ds) ! Suc i - (b # ds) ! Suc i\<bar>)"
    by (rule sum.lessThan_Suc_shift)
  then show ?thesis by (simp add: consecutive_sum_def del: sum.lessThan_Suc)
qed

lemma computeLength_loop_sum:
  "list_all known_station es \<Longrightarrow>
   computeLength_loop l dprev es = Inr (l + consecutive_sum (dprev # map chainage es))"
proof (induction es arbitrary: l dprev)
  case Nil
  then show ?case by (simp add: consecutive_sum_def)
next
  case (Cons e es)
  then obtain d where d: "map_of distanceMap (atStation e) = Some d"
    by (auto simp add: known_station_def)
  then have c: "chainage e = d" by (simp add: chainage_def)
  have "computeLength_loop l dprev (e # es) = computeLength_loop (l + \<bar>dprev - d\<bar>) d es"
    using d by (simp add: distance_of_def)
  also have "\<dots> = Inr (l + \<bar>dprev - d\<bar> + consecutive_sum (d # map chainage es))"
    using Cons by simp
  finally show ?case using c by (simp add: consecutive_sum_Cons)
qed

lemma computeLength_loop_missing:
  "\<not> list_all known_station es \<Longrightarrow> computeLength_loop l dprev es = Inl KeyError"
proof (induction es arbitrary: l dprev)
  case Nil
  then show ?case by simp
next
  case (Cons e es)
  then show ?case
    by (cases "map_of distanceMap (atStation e)") (auto simp add: distance_of_def known_station_def)
qed

text \<open>
  Claim C6 (amended). The computation fails on a service with no events
  (\<^verbatim>\<open>IndexError\<close>) and on an event whose station is not in the distance map
  (\<^verbatim>\<open>KeyError\<close>). On a non-empty event list whose stations are all in the map it returns
  the sum of the absolute chainage differences of consecutive events.
\<close>

theorem computeLengthKm_total:
  "(events svc = [] \<longrightarrow> computeLengthKm svc = Inl IndexError)
   \<and> (events svc \<noteq> [] \<longrightarrow> list_all known_station (events svc) \<longrightarrow>
        computeLengthKm svc = Inr (consecutive_sum (map chainage (events svc))))
   \<and> (events svc \<noteq> [] \<longrightarrow> \<not> list_all known_station (events svc) \<longrightarrow>
        computeLengthKm svc = Inl KeyError)"
proof (intro conjI impI)
  assume "events svc = []"
  then show "computeLengthKm svc = Inl IndexError" by (simp add: computeLengthKm_def)
next
  assume ne: "events svc \<noteq> []" and known: "list_all known_station (events svc)"
  then obtain e0 es where ev: "events svc = e0 # es" by (cases "events svc") auto
  then obtain d where d: "map_of distanceMap (atStation e0) = Some d"
    using known by (auto simp add: known_station_def)
  have "computeLengthKm svc = computeLength_loop 0 d es"
    using ev d by (simp add: computeLengthKm_def distance_of_def)
  also have "\<dots> = Inr (0 + consecutive_sum (d # map chainage es))"
    using known ev computeLength_loop_sum [of es 0 d] by simp
  finally show "computeLengthKm svc = Inr (consecutive_sum (map chainage (events svc)))"
    using ev d by (simp add: chainage_def)
next
  assume ne: "events svc \<noteq> []" and missing: "\<not> list_all known_station (events svc)"
  then obtain e0 es where ev: "events svc = e0 # es" by (cases "events svc") auto
  show "computeLengthKm svc = Inl KeyError"
  proof (cases "map_of distanceMap (atStation e0)")
    case None
    then show ?thesis using ev by (simp add: computeLengthKm_def distance_of_def)
  next
    case (Some d)
    then have "\<not> list_all known_station es" using missing ev by (simp add: known_station_def)
    then show ?thesis
      using ev Some computeLength_loop_missing [of es 0 d]
      by (simp add: computeLengthKm_def distance_of_def)
  qed
qed


lemmas length_eval = computeLengthKm_def distance_of_def distanceMap_def new_Service_def
  new_StationEvent_def

theorem computeLengthKm_total_witness:
  "computeLengthKm (new_Service\<lparr>events :=
      [new_StationEvent ''CHURCHGATE'' ''08:00'', new_StationEvent ''DADAR'' ''08:20'',
       new_StationEvent ''MATUNGA ROAD'' ''08:22'', new_StationEvent ''CHURCHGATE'' ''08:50'']\<rparr>)
     = Inr 23
   \<and> computeLengthKm new_Service = Inl IndexError
   \<and> computeLengthKm (new_Service\<lparr>events :=
      [new_StationEvent ''CHURCHGATE'' ''08:00'', new_StationEvent ''PANVEL'' ''08:20'']\<rparr>)
     = Inl KeyError"
  using computeLengthKm_total [of "new_Service\<lparr>events :=
      [new_StationEvent ''CHURCHGATE'' ''08:00'', new_StationEvent ''DADAR'' ''08:20'',
       new_StationEvent ''MATUNGA ROAD'' ''08:22'', new_StationEvent ''CHURCHGATE'' ''08:50'']\<rparr>"]
    computeLengthKm_total [of new_Service]
    computeLengthKm_total [of "new_Service\<lparr>events :=
      [new_StationEvent ''CHURCHGATE'' ''08:00'', new_StationEvent ''PANVEL'' ''08:20'']\<rparr>"]
  by (simp add: length_eval)

text \<open>A service with zero events: the claim promises length zero, the code raises.\<close>

theorem computeLengthKm_counterexample:
  "events new_Service = [] \<and> computeLengthKm new_Service = Inl IndexError
   \<and> computeLengthKm new_Service \<noteq> Inr 0"
  by (simp add: computeLengthKm_def new_Service_def)

section \<open>Rake assignment: \<^verbatim>\<open>TimeTable.assignRakes\<close>\<close>

text \<open>Python truth of \<^verbatim>\<open>svc.rakeSizeReq\<close>: neither \<^verbatim>\<open>None\<close> nor zero.\<close>

definition size_given :: "Service \<Rightarrow> bool" where
  "size_given svc = (case rakeSizeReq svc of None \<Rightarrow> False | Some n \<Rightarrow> n \<noteq> 0)"

text \<open>The inner loop over \<^verbatim>\<open>rc.servicePath\<close>, with its two \<^verbatim>\<open>break\<close>s.\<close>

fun assign_scan :: "Rake \<Rightarrow> Service list \<Rightarrow> Rake" where
  "assign_scan rk [] = rk"
| "assign_scan rk (svc # rest) =
     (if needsACRake svc then rk\<lparr>isAC := True\<rparr>
      else if size_given svc then rk\<lparr>rakeSize := the (rakeSizeReq svc)\<rparr>
      else assign_scan rk rest)"

text \<open>One pass of the outer loop for the itinerary at position \<open>i\<close>. Iterating over a
  \<^verbatim>\<open>servicePath\<close> that is \<^verbatim>\<open>None\<close> raises \<^verbatim>\<open>TypeError\<close>.\<close>

definition assign_one :: "Service list \<Rightarrow> nat \<Rightarrow> RakeCycle \<Rightarrow> error + RakeCycle" where
  "assign_one services i rc =
     (case servicePath rc of
        None \<Rightarrow> Inl TypeError
      | Some path \<Rightarrow> Inr (rc\<lparr>rake := Some (assign_scan (new_Rake i) (map ((!) services) path))\<rparr>))"

definition assignRakes :: "TimeTable \<Rightarrow> error + TimeTable" where
  "assignRakes tt =
     (case mapM_e (\<lambda>(i, rc). assign_one (suburbanServices tt) i rc)
             (enumerate 0 (rakecycles tt)) of
        Inl err \<Rightarrow> Inl err
      | Inr rcs \<Rightarrow> Inr (tt\<lparr>rakecycles := rcs\<rparr>))"

text \<open>The service at which the scan stops, if any.\<close>

definition deciding_service :: "Service list \<Rightarrow> Service option" where
  "deciding_service path = find (\<lambda>svc. needsACRake svc \<or> size_given svc) path"

lemma assign_scan_find:
  "assign_scan rk path =
     (case deciding_service path of
        None \<Rightarrow> rk
      | Some svc \<Rightarrow> if needsACRake svc then rk\<lparr>isAC := True\<rparr>
                    else rk\<lparr>rakeSize := the (rakeSizeReq svc)\<rparr>)"
  by (induction path) (auto simp add: deciding_service_def)

lemma mapM_e_enumerate_nth:
  "mapM_e (\<lambda>(i, x). f i x) (enumerate n xs) = Inr ys \<Longrightarrow>
   length ys = length xs \<and> (\<forall>k < length xs. f (n + k) (xs ! k) = Inr (ys ! k))"
proof (induction xs arbitrary: n ys)
  case Nil
  then show ?case by simp
next
  case (Cons x xs)
  then obtain y ys' where y: "f n x = Inr y"
      and ys': "mapM_e (\<lambda>(i, x). f i x) (enumerate (Suc n) xs) = Inr ys'"
      and ys: "ys = y # ys'"
    by (auto split: sum.splits)
  have ih: "length ys' = length xs \<and> (\<forall>k < length xs. f (Suc n + k) (xs ! k) = Inr (ys' ! k))"
    using Cons.IH [OF ys'] .
  show ?case
  proof (intro conjI allI impI)
    show "length ys = length (x # xs)" using ih ys by simp
  next
    fix k assume "k < length (x # xs)"
    then show "f (n + k) ((x # xs) ! k) = Inr (ys ! k)"
      using ih y ys by (cases k) auto
  qed
qed

text \<open>
  Claim C7 (amended). For every itinerary with a service path, rake assignment builds one
  fresh rake (numbered by the itinerary's position, not AC, 12 cars) and scans the path
  once, stopping at the first service that requires an AC rake or states a car count. If
  that service requires an AC rake the flag is set and the car count stays 12; otherwise
  the car count is that service's and the flag stays unset. With no such service the rake
  keeps its defaults.
\<close>

theorem assignRakes_first_match:
  "(servicePath rc = Some path \<longrightarrow>
      assign_one services i rc =
        Inr (rc\<lparr>rake := Some
          (case deciding_service (map ((!) services) path) of
             None \<Rightarrow> \<lparr>rakeId = i, isAC = False, rakeSize = 12\<rparr>
           | Some svc \<Rightarrow>
               if needsACRake svc then \<lparr>rakeId = i, isAC = True, rakeSize = 12\<rparr>
               else \<lparr>rakeId = i, isAC = False, rakeSize = the (rakeSizeReq svc)\<rparr>)\<rparr>))
   \<and> (assignRakes tt = Inr tt' \<longrightarrow>
        length (rakecycles tt') = length (rakecycles tt)
        \<and> (\<forall>k < length (rakecycles tt).
              assign_one (suburbanServices tt) k (rakecycles tt ! k) = Inr (rakecycles tt' ! k)))"
proof -
  have one: "servicePath rc = Some path \<Longrightarrow> assign_one services i rc =
        Inr (rc\<lparr>rake := Some
          (case deciding_service (map ((!) services) path) of
             None \<Rightarrow> \<lparr>rakeId = i, isAC = False, rakeSize = 12\<rparr>
           | Some svc \<Rightarrow>
               if needsACRake svc then \<lparr>rakeId = i, isAC = True, rakeSize = 12\<rparr>
               else \<lparr>rakeId = i, isAC = False, rakeSize = the (rakeSizeReq svc)\<rparr>)\<rparr>)"
    by (simp add: assign_one_def assign_scan_find new_Rake_def split: option.splits)
  have all: "length (rakecycles tt') = length (rakecycles tt)
        \<and> (\<forall>k < length (rakecycles tt).
              assign_one (suburbanServices tt) k (rakecycles tt ! k) = Inr (rakecycles tt' ! k))"
    if a: "assignRakes tt = Inr tt'"
  proof -
    obtain rcs where rcs: "mapM_e (\<lambda>(i, rc). assign_one (suburbanServices tt) i rc)
        (enumerate 0 (rakecycles tt)) = Inr rcs" and tt': "tt' = tt\<lparr>rakecycles := rcs\<rparr>"
      using a by (auto simp add: assignRakes_def split: sum.splits)
    show ?thesis using mapM_e_enumerate_nth [OF rcs] tt' by simp
  qed
  show ?thesis using one all by blast
qed

lemmas assign_eval = assignRakes_def assign_one_def new_Rake_def new_Service_def
  new_RakeCycle_def size_given_def deciding_service_def

theorem assignRakes_first_match_witness:
  "assign_one
     [new_Service\<lparr>serviceId := [IntId 93001], rakeSizeReq := Some 15\<rparr>,
      new_Service\<lparr>serviceId := [IntId 93002], rakeSizeReq := Some 12, needsACRake := True\<rparr>]
     3 (new_RakeCycle ''A''\<lparr>serviceIds := [IntId 93002, IntId 93001],
          servicePath := Some [1, 0]\<rparr>)
   = Inr (new_RakeCycle ''A''\<lparr>serviceIds := [IntId 93002, IntId 93001],
          servicePath := Some [1, 0],
          rake := Some \<lparr>rakeId = 3, isAC = True, rakeSize = 12\<rparr>\<rparr>)
   \<and> (case assignRakes \<lparr>suburbanServices =
           [new_Service\<lparr>serviceId := [IntId 93001], rakeSizeReq := Some 15\<rparr>],
         allCyclesWtt = [], rakecycles =
           [new_RakeCycle ''B''\<lparr>serviceIds := [IntId 93001], servicePath := Some [0]\<rparr>],
         conflictingLinks = []\<rparr> of
        Inl err \<Rightarrow> False
      | Inr tt' \<Rightarrow> map rake (rakecycles tt') = [Some \<lparr>rakeId = 0, isAC = False, rakeSize = 15\<rparr>])"
proof -
  let ?tt = "\<lparr>suburbanServices =
           [new_Service\<lparr>serviceId := [IntId 93001], rakeSizeReq := Some 15\<rparr>],
         allCyclesWtt = [], rakecycles =
           [new_RakeCycle ''B''\<lparr>serviceIds := [IntId 93001], servicePath := Some [0]\<rparr>],
         conflictingLinks = []\<rparr>"
  let ?tt' = "?tt\<lparr>rakecycles := [new_RakeCycle ''B''\<lparr>serviceIds := [IntId 93001],
      servicePath := Some [0], rake := Some \<lparr>rakeId = 0, isAC = False, rakeSize = 15\<rparr>\<rparr>]\<rparr>"
  have run: "assignRakes ?tt = Inr ?tt'"
    by (simp add: assign_eval)
  show ?thesis
    using run
      assignRakes_first_match [of
        "new_RakeCycle ''A''\<lparr>serviceIds := [IntId 93002, IntId 93001], servicePath := Some [1, 0]\<rparr>"
        "[1, 0]"
        "[new_Service\<lparr>serviceId := [IntId 93001], rakeSizeReq := Some 15\<rparr>,
          new_Service\<lparr>serviceId := [IntId 93002], rakeSizeReq := Some 12, needsACRake := True\<rparr>]"
        3 ?tt ?tt']
    by (simp add: assign_eval)
qed

text \<open>
  The claim as stated fails on a path whose first service states a car count and whose
  second service requires an AC rake: the scan stops at the first service and the rake is
  not AC. It fails on the car count when the first service requires an AC rake: the scan
  stops before the car count is read and the rake keeps the default 12, not the 15 the
  service states.
\<close>

theorem assignRakes_counterexample:
  "assign_one
     [new_Service\<lparr>serviceId := [IntId 93001], rakeSizeReq := Some 15\<rparr>,
      new_Service\<lparr>serviceId := [IntId 93002], rakeSizeReq := Some 15, needsACRake := True\<rparr>]
     0 (new_RakeCycle ''A''\<lparr>serviceIds := [IntId 93001, IntId 93002],
          servicePath := Some [0, 1]\<rparr>)
   = Inr (new_RakeCycle ''A''\<lparr>serviceIds := [IntId 93001, IntId 93002],
          servicePath := Some [0, 1],
          rake := Some \<lparr>rakeId = 0, isAC = False, rakeSize = 15\<rparr>\<rparr>)
   \<and> assign_one
     [new_Service\<lparr>serviceId := [IntId 93001], rakeSizeReq := Some 15\<rparr>,
      new_Service\<lparr>serviceId := [IntId 93002], rakeSizeReq := Some 15, needsACRake := True\<rparr>]
     0 (new_RakeCycle ''B''\<lparr>serviceIds := [IntId 93002, IntId 93001],
          servicePath := Some [1, 0]\<rparr>)
   = Inr (new_RakeCycle ''B''\<lparr>serviceIds := [IntId 93002, IntId 93001],
          servicePath := Some [1, 0],
          rake := Some \<lparr>rakeId = 0, isAC = True, rakeSize = 12\<rparr>\<rparr>)"
  by (simp add: assign_eval)

section \<open>Reconciliation: \<^verbatim>\<open>TimeTable.validateRakeCycles\<close>\<close>

text \<open>Python's \<^verbatim>\<open>str\<close> of an identifier: the decimal numeral of an \<^verbatim>\<open>int\<close>, the text
  itself of a \<^verbatim>\<open>str\<close>.\<close>

fun str_nat :: "nat \<Rightarrow> string" where
  "str_nat n =
     (if n < 10 then [''0123456789'' ! n] else str_nat (n div 10) @ [''0123456789'' ! (n mod 10)])"

declare str_nat.simps [simp del]

definition str_int :: "int \<Rightarrow> string" where
  "str_int i = (if i < 0 then CHR ''-'' # str_nat (nat (- i)) else str_nat (nat i))"

fun str_sid :: "sid \<Rightarrow> string" where
  "str_sid (IntId i) = str_int i"
| "str_sid (StrId s) = s"

text \<open>\<^verbatim>\<open>svc.serviceId[0]\<close> and \<^verbatim>\<open>xs[-1]\<close>, with the \<^verbatim>\<open>IndexError\<close> of an empty list.\<close>

definition first_id :: "Service \<Rightarrow> error + sid" where
  "first_id svc = (case serviceId svc of [] \<Rightarrow> Inl IndexError | k # ks \<Rightarrow> Inr k)"

definition py_last :: "'a list \<Rightarrow> error + 'a" where
  "py_last xs = (if xs = [] then Inl IndexError else Inr (last xs))"

text \<open>\<^verbatim>\<open>[svc.serviceId[0] for svc in rc.servicePath]\<close> for a path of references.\<close>

definition wttPath_of :: "Service list \<Rightarrow> nat list \<Rightarrow> error + sid list" where
  "wttPath_of services path = mapM_e (\<lambda>i. first_id (services ! i)) path"

definition is_ETY :: "sid \<Rightarrow> bool" where
  "is_ETY k = contains ''ETY'' (str_sid k)"

text \<open>
  The body of the loop for one itinerary. The result is \<open>Some wttPath\<close> when the pair
  \<^verbatim>\<open>(rc, wttPath)\<close> is appended to \<^verbatim>\<open>conflictingLinks\<close> and \<open>None\<close> when the pass
  continues without recording anything. \<^verbatim>\<open>summaryPath[:-1]\<close> is \<open>butlast\<close>,
  \<^verbatim>\<open>summaryPath[:-2]\<close> drops the last two entries, and \<^verbatim>\<open>summaryPathRed1\<close> is the
  latter, as in the source.
\<close>

definition validate_rc :: "Service list \<Rightarrow> RakeCycle \<Rightarrow> error + sid list option" where
  "validate_rc services rc =
     (case servicePath rc of
        None \<Rightarrow> Inl TypeError
      | Some path \<Rightarrow>
     (case wttPath_of services path of
        Inl err \<Rightarrow> Inl err
      | Inr wttPath \<Rightarrow>
          (let summaryPath = serviceIds rc;
               summaryPathRed1 = take (length summaryPath - 2) summaryPath
           in if wttPath \<noteq> summaryPath then
                (if butlast summaryPath = wttPath then
                   (case py_last summaryPath of
                      Inl err \<Rightarrow> Inl err
                    | Inr z \<Rightarrow> if is_ETY z then Inr None else Inr (Some wttPath))
                 else if take (length summaryPath - 2) summaryPath = wttPath then
                   (case py_last summaryPathRed1 of
                      Inl err \<Rightarrow> Inl err
                    | Inr y \<Rightarrow>
                        if is_ETY y then
                          (case py_last summaryPath of
                             Inl err \<Rightarrow> Inl err
                           | Inr z \<Rightarrow> if is_ETY z then Inr None else Inr (Some wttPath))
                        else Inr (Some wttPath))
                 else Inr (Some wttPath))
              else Inr None)))"

text \<open>
  \<^verbatim>\<open>self.rakecycles.remove(rc[0])\<close> for every entry of \<^verbatim>\<open>conflictingLinks\<close>, those
  an earlier call left included: the first occurrence of the itinerary is removed, and
  \<^verbatim>\<open>list.remove\<close> raises \<^verbatim>\<open>ValueError\<close> when the itinerary is not in the list. Two
  references to the same object are two equal records.
\<close>

fun remove_recorded ::
  "(RakeCycle \<times> sid list) list \<Rightarrow> RakeCycle list \<Rightarrow> error + RakeCycle list" where
  "remove_recorded [] rcs = Inr rcs"
| "remove_recorded (entry # entries) rcs =
     (if fst entry \<in> set rcs then remove_recorded entries (remove1 (fst entry) rcs)
      else Inl ValueError)"

text \<open>
  The whole pass: the loop appends a pair to \<^verbatim>\<open>conflictingLinks\<close> for every itinerary
  it does not accept, then every recorded itinerary is removed from \<^verbatim>\<open>rakecycles\<close>.
\<close>

definition validateRakeCycles :: "TimeTable \<Rightarrow> error + TimeTable" where
  "validateRakeCycles tt =
     (case mapM_e (validate_rc (suburbanServices tt)) (rakecycles tt) of
        Inl err \<Rightarrow> Inl err
      | Inr verdicts \<Rightarrow>
          (let recorded = conflictingLinks tt @
                 concat (map (\<lambda>(rc, v). case v of None \<Rightarrow> [] | Some wttPath \<Rightarrow> [(rc, wttPath)])
                   (zip (rakecycles tt) verdicts))
           in case remove_recorded recorded (rakecycles tt) of
                Inl err \<Rightarrow> Inl err
              | Inr kept \<Rightarrow> Inr (tt\<lparr>conflictingLinks := recorded, rakecycles := kept\<rparr>)))"

text \<open>What the loop body decides, case by case.\<close>

lemma validate_rc_exact:
  "servicePath rc = Some path \<Longrightarrow> wttPath_of services path = Inr (serviceIds rc) \<Longrightarrow>
   validate_rc services rc = Inr None"
  by (simp add: validate_rc_def)

lemma validate_rc_one_trailing:
  "servicePath rc = Some path \<Longrightarrow> wttPath_of services path = Inr w \<Longrightarrow>
   serviceIds rc = w @ [z] \<Longrightarrow>
   validate_rc services rc = Inr (if is_ETY z then None else Some w)"
  by (simp add: validate_rc_def py_last_def)

lemma validate_rc_two_trailing:
  "servicePath rc = Some path \<Longrightarrow> wttPath_of services path = Inr w \<Longrightarrow>
   serviceIds rc = w @ [y, z] \<Longrightarrow> w \<noteq> [] \<Longrightarrow>
   validate_rc services rc = Inr (if is_ETY (last w) \<and> is_ETY z then None else Some w)"
proof -
  assume a: "servicePath rc = Some path" "wttPath_of services path = Inr w"
    "serviceIds rc = w @ [y, z]" "w \<noteq> []"
  have b: "butlast (w @ [y, z]) = w @ [y]" by (simp add: butlast_append)
  show ?thesis using a b by (simp add: validate_rc_def py_last_def Let_def)
qed

definition two_services :: "Service list" where
  "two_services =
     [new_Service\<lparr>serviceId := [IntId 93001], rakeSizeReq := Some 15, linkedTo := Some ''93002''\<rparr>,
      new_Service\<lparr>serviceId := [IntId 93002], rakeSizeReq := Some 15\<rparr>]"

definition rc_two_ETY :: RakeCycle where
  "rc_two_ETY = new_RakeCycle ''A''\<lparr>
     serviceIds := [IntId 93001, IntId 93002, StrId ''ETY 1'', StrId ''ETY 2''],
     servicePath := Some [0, 1]\<rparr>"

lemmas validate_eval = validate_rc_def wttPath_of_def first_id_def
  py_last_def is_ETY_def str_int_def str_nat.simps new_Service_def new_RakeCycle_def Let_def

lemma rc_two_ETY_verdict:
  "validate_rc two_services rc_two_ETY = Inr (Some [IntId 93001, IntId 93002])"
  by (simp add: validate_eval two_services_def rc_two_ETY_def)

text \<open>
  Claim C2 (the code departs from it). The declared sequence exceeds the derived one by
  exactly two trailing entries, both of them \<^verbatim>\<open>ETY\<close> placeholders, and the itinerary is
  recorded as a conflict and removed: the test reads the last entry of
  \<^verbatim>\<open>summaryPath[:-2]\<close>, the entry before the two trailing ones, instead of the first of
  the two.
\<close>

theorem validateRakeCycles_two_trailing_ETY:
  "validateRakeCycles \<lparr>suburbanServices = two_services, allCyclesWtt = [[0, 1]],
       rakecycles = [rc_two_ETY], conflictingLinks = []\<rparr>
   = Inr \<lparr>suburbanServices = two_services, allCyclesWtt = [[0, 1]],
       rakecycles = [], conflictingLinks = [(rc_two_ETY, [IntId 93001, IntId 93002])]\<rparr>
   \<and> is_ETY (StrId ''ETY 1'') \<and> is_ETY (StrId ''ETY 2'')"
  by (simp add: validateRakeCycles_def rc_two_ETY_verdict is_ETY_def)

section \<open>Linkage graph: \<^verbatim>\<open>TimeTable.makeRakeCyclePathsSV\<close>\<close>

text \<open>
  \<^verbatim>\<open>idMap = {sid: s for s in services for sid in s.serviceId}\<close>: a dictionary in insertion
  order, a later service replacing the value of a key already present without moving
  the key. The value is the reference to the service, its position in \<open>services\<close>.
\<close>

definition make_idMap :: "Service list \<Rightarrow> (sid \<times> nat) list" where
  "make_idMap services =
     fold (\<lambda>(i, s) m. fold (\<lambda>k m'. AList.update k i m') (serviceId s) m)
       (enumerate 0 services) []"

text \<open>
  Python's \<^verbatim>\<open>int\<close> of a text: blanks around, an optional sign, then decimal digits,
  single underscores allowed between digits. \<open>None\<close> is the \<^verbatim>\<open>ValueError\<close>.
\<close>

fun parse_digits :: "bool \<Rightarrow> nat \<Rightarrow> string \<Rightarrow> nat option" where
  "parse_digits after_digit acc [] = (if after_digit then Some acc else None)"
| "parse_digits after_digit acc (c # cs) =
     (if is_digit c then parse_digits True (10 * acc + digit_val c) cs
      else if c = CHR ''_'' \<and> after_digit then parse_digits False acc cs
      else None)"

definition py_int :: "string \<Rightarrow> int option" where
  "py_int s =
     (case strip s of
        [] \<Rightarrow> None
      | c # r \<Rightarrow>
          if c = CHR ''-'' then map_option (\<lambda>n. - int n) (parse_digits False 0 r)
          else if c = CHR ''+'' then map_option int (parse_digits False 0 r)
          else map_option int (parse_digits False 0 (c # r)))"

text \<open>\<^verbatim>\<open>nextId\<close>: the \<^verbatim>\<open>int\<close> of the stripped link text, or the stripped text itself
  when it is no number.\<close>

definition next_id_of :: "string \<Rightarrow> sid" where
  "next_id_of l = (case py_int (strip l) of Some i \<Rightarrow> IntId i | None \<Rightarrow> StrId (strip l))"

text \<open>
  The edge one pass of the linking loop records for the service \<open>sv\<close>, from its first
  identifier to \<^verbatim>\<open>nextId\<close>, or \<open>None\<close> when the pass ends in \<^verbatim>\<open>continue\<close>: no link text,
  or a link to an identifier outside \<open>idMap\<close>. Every service reached through \<open>idMap\<close> has
  an identifier, so \<open>hd\<close> is on a non-empty list.
\<close>

definition link_of :: "(sid \<times> nat) list \<Rightarrow> Service \<Rightarrow> (sid \<times> sid) option" where
  "link_of idMap sv =
     (case linkedTo sv of
        None \<Rightarrow> None
      | Some l \<Rightarrow>
          if l = [] then None
          else if map_of idMap (next_id_of l) = None then None
          else Some (hd (serviceId sv), next_id_of l))"

text \<open>\<^verbatim>\<open>adj\<close>: the two fields \<^verbatim>\<open>prev\<close> and \<^verbatim>\<open>next\<close> of every identifier, \<open>None\<close> by
  default.\<close>

record Adj =
  adj_prev :: "sid \<Rightarrow> sid option"
  adj_next :: "sid \<Rightarrow> sid option"

definition record_link :: "(sid \<times> sid) option \<Rightarrow> Adj \<Rightarrow> Adj" where
  "record_link e adj =
     (case e of
        None \<Rightarrow> adj
      | Some (sid, nextId) \<Rightarrow>
          adj\<lparr>adj_next := (adj_next adj)(sid \<mapsto> nextId),
              adj_prev := (adj_prev adj)(nextId \<mapsto> sid)\<rparr>)"

text \<open>The links in the order of \<^verbatim>\<open>idMap.values()\<close>, and the loop that records them.\<close>

definition links :: "(sid \<times> nat) list \<Rightarrow> Service list \<Rightarrow> (sid \<times> sid) option list" where
  "links idMap services = map (\<lambda>(k, i). link_of idMap (services ! i)) idMap"

definition build_adj :: "(sid \<times> nat) list \<Rightarrow> Service list \<Rightarrow> Adj" where
  "build_adj idMap services =
     fold record_link (links idMap services) \<lparr>adj_prev = Map.empty, adj_next = Map.empty\<rparr>"

text \<open>Python truth of an identifier: a non-zero \<^verbatim>\<open>int\<close>, a non-empty \<^verbatim>\<open>str\<close>.\<close>

fun truthy_sid :: "sid \<Rightarrow> bool" where
  "truthy_sid (IntId i) = (i \<noteq> 0)"
| "truthy_sid (StrId s) = (s \<noteq> [])"

text \<open>
  \<^verbatim>\<open>followChain(sid, chain)\<close> with the set \<^verbatim>\<open>visited\<close> it closes over, kept as the list
  of identifiers in the order they were added. The Python interpreter's recursion limit
  is not modelled.
\<close>

function followChain ::
  "(sid \<times> nat) list \<Rightarrow> Adj \<Rightarrow> sid \<Rightarrow> sid list \<times> nat list \<Rightarrow> sid list \<times> nat list" where
  "followChain idMap adj sid (visited, chain) =
     (if sid \<in> set visited \<or> map_of idMap sid = None then (visited, chain)
      else (case adj_next adj sid of
              None \<Rightarrow> (visited @ [sid], chain @ [the (map_of idMap sid)])
            | Some nxt \<Rightarrow>
                if truthy_sid nxt
                then followChain idMap adj nxt
                       (visited @ [sid], chain @ [the (map_of idMap sid)])
                else (visited @ [sid], chain @ [the (map_of idMap sid)])))"
  by pat_completeness auto

termination
proof (relation "measure (\<lambda>(idMap, adj, sid, visited, chain).
    card (fst ` set idMap - set visited))")
  show "wf (measure (\<lambda>(idMap, adj, sid, visited, chain).
    card (fst ` set idMap - set visited)))"
    by simp
next
  fix idMap :: "(sid \<times> nat) list" and adj :: Adj and sid :: sid
    and visited :: "sid list" and chain :: "nat list" and nxt :: sid
  assume a: "\<not> (sid \<in> set visited \<or> map_of idMap sid = None)"
  then have "sid \<in> fst ` set idMap" by (simp add: map_of_eq_None_iff)
  then have "sid \<in> fst ` set idMap - set visited" using a by simp
  moreover have "fst ` set idMap - set (visited @ [sid])
      = (fst ` set idMap - set visited) - {sid}" by auto
  moreover have "finite (fst ` set idMap - set visited)" by simp
  ultimately have "card (fst ` set idMap - set (visited @ [sid]))
      < card (fst ` set idMap - set visited)"
    by (metis card_Diff1_less)
  then show "((idMap, adj, nxt, visited @ [sid], chain @ [the (map_of idMap sid)]),
        idMap, adj, sid, visited, chain)
      \<in> measure (\<lambda>(idMap, adj, sid, visited, chain). card (fst ` set idMap - set visited))"
    by simp
qed

declare followChain.simps [simp del]

text \<open>
  One pass of the loop over the keys of \<open>idMap\<close>: the three \<^verbatim>\<open>continue\<close>s, then a fresh
  chain followed from \<open>sid\<close> and appended when it is not empty. The state is the visited
  list and the chains found so far.
\<close>

definition chain_step ::
  "(sid \<times> nat) list \<Rightarrow> Adj \<Rightarrow> sid \<Rightarrow> sid list \<times> nat list list \<Rightarrow> sid list \<times> nat list list"
  where
  "chain_step idMap adj sid st =
     (case st of (visited, cycles) \<Rightarrow>
        if sid \<in> set visited then st
        else if adj_prev adj sid \<noteq> None then st
        else if adj_next adj sid = None then st
        else (case followChain idMap adj sid (visited, []) of
                (visited', chain) \<Rightarrow>
                  (visited', if chain \<noteq> [] then cycles @ [chain] else cycles)))"

definition discover_chains :: "Service list \<Rightarrow> sid list \<times> nat list list" where
  "discover_chains services =
     fold (chain_step (make_idMap services) (build_adj (make_idMap services) services))
       (map fst (make_idMap services)) ([], [])"

text \<open>The method: the chains found are appended to \<^verbatim>\<open>self.allCyclesWtt\<close>.\<close>

definition makeRakeCyclePathsSV :: "TimeTable \<Rightarrow> Service list \<Rightarrow> TimeTable" where
  "makeRakeCyclePathsSV tt services =
     tt\<lparr>allCyclesWtt := allCyclesWtt tt @ snd (discover_chains services)\<rparr>"

text \<open>The service reference an identifier stands for in \<open>idMap\<close>.\<close>

definition lookup_ref :: "(sid \<times> nat) list \<Rightarrow> sid \<Rightarrow> nat" where
  "lookup_ref idMap k = the (map_of idMap k)"

text \<open>Each identifier of the list is followed by its recorded successor.\<close>

fun follows_next :: "Adj \<Rightarrow> sid list \<Rightarrow> bool" where
  "follows_next adj [] = True"
| "follows_next adj [k] = True"
| "follows_next adj (k # k' # ks) = (adj_next adj k = Some k' \<and> follows_next adj (k' # ks))"

text \<open>
  The identifiers behind one chain: a non-empty run of keys of \<open>idMap\<close> that starts at a
  key with no recorded predecessor and a recorded successor, and follows the recorded
  successors.
\<close>

definition chain_ids_ok :: "(sid \<times> nat) list \<Rightarrow> Adj \<Rightarrow> sid list \<Rightarrow> bool" where
  "chain_ids_ok idMap adj ids =
     (ids \<noteq> [] \<and> set ids \<subseteq> fst ` set idMap \<and> adj_prev adj (hd ids) = None
      \<and> adj_next adj (hd ids) \<noteq> None \<and> follows_next adj ids)"

text \<open>
  The invariant of the discovery loop: the visited list is the concatenation of the
  identifier runs of the chains found, without repetition, and every chain is the list of
  services its run stands for.
\<close>

definition discovery_inv ::
  "(sid \<times> nat) list \<Rightarrow> Adj \<Rightarrow> sid list \<times> nat list list \<Rightarrow> bool" where
  "discovery_inv idMap adj st =
     (\<exists>idss. fst st = concat idss \<and> distinct (concat idss)
        \<and> snd st = map (map (lookup_ref idMap)) idss
        \<and> list_all (chain_ids_ok idMap adj) idss)"


subsection \<open>The recursive follow\<close>

lemma follows_next_Cons:
  "follows_next adj (k # ks) = (ks = [] \<or> (adj_next adj k = Some (hd ks) \<and> follows_next adj ks))"
  by (cases ks) auto

lemma followChain_trace:
  "\<exists>new. followChain idMap adj sid st
        = (fst st @ new, snd st @ map (lookup_ref idMap) new)
     \<and> distinct new \<and> set new \<inter> set (fst st) = {} \<and> set new \<subseteq> fst ` set idMap
     \<and> (new \<noteq> [] \<longrightarrow> hd new = sid)
     \<and> (sid \<notin> set (fst st) \<longrightarrow> map_of idMap sid \<noteq> None \<longrightarrow> new \<noteq> [])
     \<and> follows_next adj new"
proof (induction idMap adj sid st rule: followChain.induct)
  case (1 idMap adj sid visited chain)
  let ?v = "visited @ [sid]" and ?c = "chain @ [the (map_of idMap sid)]"
  show ?case
  proof (cases "sid \<in> set visited \<or> map_of idMap sid = None")
    case True
    then have "followChain idMap adj sid (visited, chain) = (visited, chain)"
      by (subst followChain.simps) simp
    then show ?thesis using True by (intro exI [of _ "[]"]) auto
  next
    case False
    then have key: "sid \<in> fst ` set idMap" by (simp add: map_of_eq_None_iff)
    show ?thesis
    proof (cases "\<exists>nxt. adj_next adj sid = Some nxt \<and> truthy_sid nxt")
      case stop: False
      then have "followChain idMap adj sid (visited, chain) = (?v, ?c)"
        using False by (subst followChain.simps) (auto split: option.splits)
      then show ?thesis using False key
        by (intro exI [of _ "[sid]"]) (auto simp add: lookup_ref_def)
    next
      case True
      then obtain nxt where nxt: "adj_next adj sid = Some nxt" "truthy_sid nxt" by blast
      have unfold: "followChain idMap adj sid (visited, chain) = followChain idMap adj nxt (?v, ?c)"
        using False nxt by (subst followChain.simps) auto
      obtain new where new: "followChain idMap adj nxt (?v, ?c)
            = (?v @ new, ?c @ map (lookup_ref idMap) new)"
          "distinct new" "set new \<inter> set ?v = {}" "set new \<subseteq> fst ` set idMap"
          "new \<noteq> [] \<longrightarrow> hd new = nxt" "follows_next adj new"
        using "1.IH" [OF False nxt] by auto
      have a: "followChain idMap adj sid (visited, chain)
          = (visited @ (sid # new), chain @ map (lookup_ref idMap) (sid # new))"
        using unfold new(1) by (simp add: lookup_ref_def)
      have b: "distinct (sid # new)" using new(2,3) by auto
      have c: "set (sid # new) \<inter> set visited = {}" using new(3) False by auto
      have d: "set (sid # new) \<subseteq> fst ` set idMap" using new(4) key by simp
      have e: "follows_next adj (sid # new)"
        using new(5,6) nxt(1) by (auto simp add: follows_next_Cons)
      show ?thesis using a b c d e by (intro exI [of _ "sid # new"]) simp
    qed
  qed
qed

subsection \<open>The discovery loop\<close>

lemma chain_step_inv:
  assumes key: "sid \<in> fst ` set idMap" and inv: "discovery_inv idMap adj st"
  shows "discovery_inv idMap adj (chain_step idMap adj sid st)"
proof -
  obtain visited cycles where st: "st = (visited, cycles)" by (cases st)
  obtain idss where idss: "visited = concat idss" "distinct (concat idss)"
      "cycles = map (map (lookup_ref idMap)) idss" "list_all (chain_ids_ok idMap adj) idss"
    using inv st by (auto simp add: discovery_inv_def)
  show ?thesis
  proof (cases "sid \<in> set visited \<or> adj_prev adj sid \<noteq> None \<or> adj_next adj sid = None")
    case True
    then have "chain_step idMap adj sid st = st" by (auto simp add: chain_step_def st)
    then show ?thesis using inv by simp
  next
    case False
    obtain new where new: "followChain idMap adj sid (visited, [])
          = (visited @ new, map (lookup_ref idMap) new)"
        "distinct new" "set new \<inter> set visited = {}" "set new \<subseteq> fst ` set idMap"
        "new \<noteq> [] \<longrightarrow> hd new = sid"
        "sid \<notin> set visited \<longrightarrow> map_of idMap sid \<noteq> None \<longrightarrow> new \<noteq> []"
        "follows_next adj new"
      using followChain_trace [of idMap adj sid "(visited, [])"] by auto
    have ne: "new \<noteq> []" using new(6) False key by (simp add: map_of_eq_None_iff)
    then have hd: "hd new = sid" using new(5) by simp
    have step: "chain_step idMap adj sid st
        = (visited @ new, cycles @ [map (lookup_ref idMap) new])"
      using False new(1) ne by (simp add: chain_step_def st)
    have ok: "chain_ids_ok idMap adj new"
      using ne hd new(4,7) False by (simp add: chain_ids_ok_def)
    have "fst (chain_step idMap adj sid st) = concat (idss @ [new])"
      using step idss(1) by simp
    moreover have "distinct (concat (idss @ [new]))"
      using idss(1,2) new(2,3) by auto
    moreover have "snd (chain_step idMap adj sid st) = map (map (lookup_ref idMap)) (idss @ [new])"
      using step idss(3) by simp
    moreover have "list_all (chain_ids_ok idMap adj) (idss @ [new])"
      using idss(4) ok by simp
    ultimately show ?thesis unfolding discovery_inv_def by blast
  qed
qed

lemma fold_chain_step_inv:
  "set ks \<subseteq> fst ` set idMap \<Longrightarrow> discovery_inv idMap adj st \<Longrightarrow>
   discovery_inv idMap adj (fold (chain_step idMap adj) ks st)"
proof (induction ks arbitrary: st)
  case Nil
  then show ?case by simp
next
  case (Cons k ks)
  have "discovery_inv idMap adj (chain_step idMap adj k st)"
    using Cons.prems chain_step_inv [of k idMap adj st] by simp
  then show ?case using Cons by simp
qed

lemma discover_chains_inv:
  "discovery_inv (make_idMap services) (build_adj (make_idMap services) services)
     (discover_chains services)"
proof -
  have "discovery_inv (make_idMap services) (build_adj (make_idMap services) services) ([], [])"
    unfolding discovery_inv_def by (intro exI [of _ "[]"]) simp
  then show ?thesis
    unfolding discover_chains_def by (intro fold_chain_step_inv) simp_all
qed

subsection \<open>Recorded links and the edges of the graph\<close>

lemma fold_record_link_next:
  "(adj_next (fold record_link es adj) k \<noteq> None)
     = (adj_next adj k \<noteq> None \<or> (\<exists>v. Some (k, v) \<in> set es))"
proof (induction es arbitrary: adj)
  case Nil
  then show ?case by simp
next
  case (Cons e es)
  show ?case
  proof (cases e)
    case None
    then show ?thesis using Cons [of adj] by (simp add: record_link_def)
  next
    case (Some p)
    obtain u v where p: "p = (u, v)" by (cases p)
    show ?thesis
      using Cons [of "record_link e adj"] Some p by (auto simp add: record_link_def)
  qed
qed

lemma fold_record_link_prev:
  "(adj_prev (fold record_link es adj) k \<noteq> None)
     = (adj_prev adj k \<noteq> None \<or> (\<exists>u. Some (u, k) \<in> set es))"
proof (induction es arbitrary: adj)
  case Nil
  then show ?case by simp
next
  case (Cons e es)
  show ?case
  proof (cases e)
    case None
    then show ?thesis using Cons [of adj] by (simp add: record_link_def)
  next
    case (Some p)
    obtain u v where p: "p = (u, v)" by (cases p)
    show ?thesis
      using Cons [of "record_link e adj"] Some p by (auto simp add: record_link_def)
  qed
qed

lemma build_adj_next:
  "(adj_next (build_adj idMap services) k \<noteq> None)
     = (\<exists>v. Some (k, v) \<in> set (links idMap services))"
  using fold_record_link_next [of "links idMap services"
      "\<lparr>adj_prev = Map.empty, adj_next = Map.empty\<rparr>" k]
  by (simp add: build_adj_def)

lemma build_adj_prev:
  "(adj_prev (build_adj idMap services) k = None)
     = (\<not> (\<exists>u. Some (u, k) \<in> set (links idMap services)))"
proof -
  have "(adj_prev (build_adj idMap services) k \<noteq> None)
      = (\<exists>u. Some (u, k) \<in> set (links idMap services))"
    using fold_record_link_prev [of "links idMap services"
        "\<lparr>adj_prev = Map.empty, adj_next = Map.empty\<rparr>" k]
    by (simp add: build_adj_def)
  then show ?thesis by auto
qed

subsection \<open>Identifiers and the services they stand for\<close>

lemma map_of_fold_update:
  "map_of (fold (\<lambda>k m'. AList.update k i m') ks m) k'
     = (if k' \<in> set ks then Some i else map_of m k')"
  by (induction ks arbitrary: m) (auto simp add: update_conv')

lemma map_of_make_idMap_aux:
  "map_of (fold (\<lambda>(i, s) m. fold (\<lambda>k m'. AList.update k i m') (serviceId s) m)
      (enumerate n services) m0) k = Some i \<Longrightarrow>
   map_of m0 k = Some i
   \<or> (n \<le> i \<and> i < n + length services \<and> k \<in> set (serviceId (services ! (i - n))))"
proof (induction services arbitrary: n m0)
  case Nil
  then show ?case by simp
next
  case (Cons s services)
  let ?m1 = "fold (\<lambda>k m'. AList.update k n m') (serviceId s) m0"
  have "map_of ?m1 k = Some i
      \<or> (Suc n \<le> i \<and> i < Suc n + length services
          \<and> k \<in> set (serviceId (services ! (i - Suc n))))"
    using Cons.IH [of "Suc n" ?m1] Cons.prems by simp
  then show ?case
  proof
    assume "map_of ?m1 k = Some i"
    then show ?thesis by (auto simp add: map_of_fold_update split: if_splits)
  next
    assume a: "Suc n \<le> i \<and> i < Suc n + length services
        \<and> k \<in> set (serviceId (services ! (i - Suc n)))"
    then have "(s # services) ! (i - n) = services ! (i - Suc n)"
      by (metis Suc_diff_Suc Suc_le_lessD nth_Cons_Suc)
    then show ?thesis using a by simp
  qed
qed

lemma map_of_make_idMap:
  "map_of (make_idMap services) k = Some i \<Longrightarrow>
   i < length services \<and> k \<in> set (serviceId (services ! i))"
  using map_of_make_idMap_aux [of 0 services "[]" k i] by (simp add: make_idMap_def)

lemma single_id_inj:
  assumes single: "\<forall>s \<in> set services. length (serviceId s) \<le> 1"
  shows "inj_on (lookup_ref (make_idMap services)) (fst ` set (make_idMap services))"
proof (rule inj_onI)
  fix k1 k2
  assume k1: "k1 \<in> fst ` set (make_idMap services)"
    and k2: "k2 \<in> fst ` set (make_idMap services)"
    and eq: "lookup_ref (make_idMap services) k1 = lookup_ref (make_idMap services) k2"
  obtain i1 where i1: "map_of (make_idMap services) k1 = Some i1"
    using k1 by (metis map_of_eq_None_iff not_Some_eq)
  obtain i2 where i2: "map_of (make_idMap services) k2 = Some i2"
    using k2 by (metis map_of_eq_None_iff not_Some_eq)
  have same: "i1 = i2" using eq i1 i2 by (simp add: lookup_ref_def)
  have m1: "i1 < length services" "k1 \<in> set (serviceId (services ! i1))"
    using map_of_make_idMap [OF i1] by simp_all
  have m2: "k2 \<in> set (serviceId (services ! i1))"
    using map_of_make_idMap [OF i2] same by simp
  have "length (serviceId (services ! i1)) \<le> 1" using single m1(1) by simp
  then obtain x where "serviceId (services ! i1) = [x]"
    using m1(2) by (cases "serviceId (services ! i1)") auto
  then show "k1 = k2" using m1(2) m2 by simp
qed

subsection \<open>Chain discovery\<close>

text \<open>
  Claim C5 (amended). Chain discovery is a total function of the service list, cyclic
  successor relations included: \<open>followChain\<close> is defined by recursion that ends because
  every call adds an unvisited key of \<open>idMap\<close> to the visited list. The visited list is
  the concatenation of the identifier runs of the chains and holds no identifier twice.
  Every chain is the list of services its run of identifiers stands for; the run is not
  empty, starts at an identifier with no incoming link and an outgoing link, and follows
  the recorded successors, so a cycle is cut where it would return to a visited
  identifier. A chain holds no service twice when no service carries more than one
  identifier.
\<close>

theorem makeRakeCyclePathsSV_chains:
  "\<exists>idss.
      fst (discover_chains services) = concat idss
    \<and> distinct (concat idss)
    \<and> allCyclesWtt (makeRakeCyclePathsSV tt services)
        = allCyclesWtt tt @ map (map (lookup_ref (make_idMap services))) idss
    \<and> (\<forall>ids \<in> set idss.
          ids \<noteq> [] \<and> distinct ids \<and> set ids \<subseteq> fst ` set (make_idMap services)
        \<and> \<not> (\<exists>u. Some (u, hd ids) \<in> set (links (make_idMap services) services))
        \<and> (\<exists>v. Some (hd ids, v) \<in> set (links (make_idMap services) services))
        \<and> follows_next (build_adj (make_idMap services) services) ids)
    \<and> ((\<forall>s \<in> set services. length (serviceId s) \<le> 1) \<longrightarrow>
          (\<forall>c \<in> set (snd (discover_chains services)). distinct c))"
proof -
  let ?idMap = "make_idMap services"
  let ?adj = "build_adj ?idMap services"
  obtain idss where idss: "fst (discover_chains services) = concat idss"
      "distinct (concat idss)"
      "snd (discover_chains services) = map (map (lookup_ref ?idMap)) idss"
      "list_all (chain_ids_ok ?idMap ?adj) idss"
    using discover_chains_inv [of services] unfolding discovery_inv_def by blast
  have each: "ids \<noteq> [] \<and> distinct ids \<and> set ids \<subseteq> fst ` set ?idMap
        \<and> \<not> (\<exists>u. Some (u, hd ids) \<in> set (links ?idMap services))
        \<and> (\<exists>v. Some (hd ids, v) \<in> set (links ?idMap services))
        \<and> follows_next ?adj ids" if mem: "ids \<in> set idss" for ids
  proof -
    have ok: "chain_ids_ok ?idMap ?adj ids" using idss(4) mem by (simp add: list_all_iff)
    have d: "distinct ids" using idss(2) mem by (simp add: distinct_concat_iff)
    have p: "\<not> (\<exists>u. Some (u, hd ids) \<in> set (links ?idMap services))"
      using ok build_adj_prev [of ?idMap services "hd ids"] by (simp add: chain_ids_ok_def)
    have n: "\<exists>v. Some (hd ids, v) \<in> set (links ?idMap services)"
      using ok build_adj_next [of ?idMap services "hd ids"] by (simp add: chain_ids_ok_def)
    show ?thesis using ok d p n by (simp add: chain_ids_ok_def)
  qed
  have single: "distinct c"
    if one: "\<forall>s \<in> set services. length (serviceId s) \<le> 1"
      and c: "c \<in> set (snd (discover_chains services))" for c
  proof -
    obtain ids where ids: "ids \<in> set idss" "c = map (lookup_ref ?idMap) ids"
      using c idss(3) by auto
    have "inj_on (lookup_ref ?idMap) (set ids)"
      using single_id_inj [OF one] each [OF ids(1)] by (meson inj_on_subset)
    then show ?thesis using each [OF ids(1)] ids(2) by (simp add: distinct_map)
  qed
  have cyc: "allCyclesWtt (makeRakeCyclePathsSV tt services)
      = allCyclesWtt tt @ map (map (lookup_ref ?idMap)) idss"
    using idss(3) by (simp add: makeRakeCyclePathsSV_def)
  show ?thesis
    using idss(1,2) cyc each single by (intro exI [of _ idss]) blast
qed

text \<open>A successor relation with a cycle: 93000 rolls into 93001, 93001 into 93002 and
  93002 back into 93001. The chain is cut before it returns to 93001.\<close>

definition cyclic_services :: "Service list" where
  "cyclic_services =
     [new_Service\<lparr>serviceId := [IntId 93000], rakeSizeReq := Some 15,
        linkedTo := Some ''93001''\<rparr>,
      new_Service\<lparr>serviceId := [IntId 93001], rakeSizeReq := Some 15,
        linkedTo := Some ''93002''\<rparr>,
      new_Service\<lparr>serviceId := [IntId 93002], rakeSizeReq := Some 15,
        linkedTo := Some ''93001''\<rparr>]"

lemma next_id_of_examples:
  "next_id_of ''93001'' = IntId 93001" "next_id_of ''93002'' = IntId 93002"
  "next_id_of ''93003'' = IntId 93003"
  by (simp_all add: next_id_of_def py_int_def strip_def is_space_def is_digit_def digit_val_def)

lemma cyclic_idMap:
  "make_idMap cyclic_services = [(IntId 93000, 0), (IntId 93001, 1), (IntId 93002, 2)]"
  by (simp add: make_idMap_def cyclic_services_def new_Service_def)

lemma cyclic_links:
  "links [(IntId 93000, 0), (IntId 93001, 1), (IntId 93002, 2)] cyclic_services
     = [Some (IntId 93000, IntId 93001), Some (IntId 93001, IntId 93002),
        Some (IntId 93002, IntId 93001)]"
  by (simp add: links_def link_of_def next_id_of_examples cyclic_services_def new_Service_def)

lemma cyclic_chains:
  "discover_chains cyclic_services = ([IntId 93000, IntId 93001, IntId 93002], [[0, 1, 2]])"
  unfolding discover_chains_def build_adj_def cyclic_idMap cyclic_links
  by (simp add: chain_step_def followChain.simps record_link_def)

theorem makeRakeCyclePathsSV_chains_witness:
  "discover_chains cyclic_services = ([IntId 93000, IntId 93001, IntId 93002], [[0, 1, 2]])
   \<and> allCyclesWtt (makeRakeCyclePathsSV
        \<lparr>suburbanServices = cyclic_services, allCyclesWtt = [], rakecycles = [],
         conflictingLinks = []\<rparr> cyclic_services) = [[0, 1, 2]]
   \<and> distinct [0 :: nat, 1, 2]"
  using makeRakeCyclePathsSV_chains [of cyclic_services
      "\<lparr>suburbanServices = cyclic_services, allCyclesWtt = [], rakecycles = [],
        conflictingLinks = []\<rparr>"]
  by (simp add: cyclic_chains makeRakeCyclePathsSV_def)

text \<open>
  A service with two identifiers, 93001 and 93002, rolls into 93003, and 93003 rolls into
  93002. The three identifiers are visited once each, and the chain holds the first
  service twice.
\<close>

definition multi_id_services :: "Service list" where
  "multi_id_services =
     [new_Service\<lparr>serviceId := [IntId 93001, IntId 93002], rakeSizeReq := Some 15,
        linkedTo := Some ''93003''\<rparr>,
      new_Service\<lparr>serviceId := [IntId 93003], rakeSizeReq := Some 15,
        linkedTo := Some ''93002''\<rparr>]"

lemma multi_id_idMap:
  "make_idMap multi_id_services = [(IntId 93001, 0), (IntId 93002, 0), (IntId 93003, 1)]"
  by (simp add: make_idMap_def multi_id_services_def new_Service_def)

lemma multi_id_links:
  "links [(IntId 93001, 0), (IntId 93002, 0), (IntId 93003, 1)] multi_id_services
     = [Some (IntId 93001, IntId 93003), Some (IntId 93001, IntId 93003),
        Some (IntId 93003, IntId 93002)]"
  by (simp add: links_def link_of_def next_id_of_examples multi_id_services_def new_Service_def)

lemma multi_id_chains:
  "discover_chains multi_id_services
     = ([IntId 93001, IntId 93003, IntId 93002], [[0, 1, 0]])"
  unfolding discover_chains_def build_adj_def multi_id_idMap multi_id_links
  by (simp add: chain_step_def followChain.simps record_link_def)

theorem makeRakeCyclePathsSV_counterexample:
  "allCyclesWtt (makeRakeCyclePathsSV
        \<lparr>suburbanServices = multi_id_services, allCyclesWtt = [], rakecycles = [],
         conflictingLinks = []\<rparr> multi_id_services) = [[0, 1, 0]]
   \<and> \<not> distinct [0 :: nat, 1, 0]"
  by (simp add: multi_id_chains makeRakeCyclePathsSV_def)

section \<open>Reconciliation: \<^verbatim>\<open>TimeTable.fixPath\<close> and \<^verbatim>\<open>TimeTable.generateRakeCycles\<close>\<close>

subsection \<open>Sorting the services\<close>

text \<open>Python's \<^verbatim>\<open><\<close> on strings, by code point, and on the sort key
  \<^verbatim>\<open>(isinstance(id, int), id)\<close>: every \<^verbatim>\<open>str\<close> identifier before every \<^verbatim>\<open>int\<close>.\<close>

fun str_less :: "string \<Rightarrow> string \<Rightarrow> bool" where
  "str_less [] [] = False"
| "str_less [] (y # ys) = True"
| "str_less (x # xs) [] = False"
| "str_less (x # xs) (y # ys) =
     ((of_char x :: nat) < of_char y \<or> (x = y \<and> str_less xs ys))"

fun key_less :: "sid \<Rightarrow> sid \<Rightarrow> bool" where
  "key_less (StrId a) (IntId b) = True"
| "key_less (IntId a) (StrId b) = False"
| "key_less (IntId a) (IntId b) = (a < b)"
| "key_less (StrId a) (StrId b) = str_less a b"

text \<open>\<^verbatim>\<open>list.sort\<close> is stable: a service goes behind the services already placed whose
  key is not greater.\<close>

fun insort_service :: "Service \<Rightarrow> Service list \<Rightarrow> Service list" where
  "insort_service x [] = [x]"
| "insort_service x (y # ys) =
     (if key_less (hd (serviceId x)) (hd (serviceId y)) then x # y # ys
      else y # insort_service x ys)"

text \<open>The key reads \<^verbatim>\<open>sv.serviceId[0]\<close> of every service first.\<close>

definition sort_services :: "Service list \<Rightarrow> error + Service list" where
  "sort_services services =
     (case mapM_e first_id services of
        Inl err \<Rightarrow> Inl err
      | Inr keys \<Rightarrow> Inr (fold insort_service services []))"

subsection \<open>\<^verbatim>\<open>fixPath\<close>\<close>

text \<open>\<^verbatim>\<open>str(sv.linkedTo)\<close>, where \<^verbatim>\<open>None\<close> prints as its name.\<close>

definition str_linkedTo :: "Service \<Rightarrow> string" where
  "str_linkedTo sv = (case linkedTo sv of None \<Rightarrow> ''None'' | Some l \<Rightarrow> l)"

text \<open>\<^verbatim>\<open>allServices = {str(s.serviceId[0]): s for s in self.suburbanServices}\<close>.\<close>

definition make_allServices :: "Service list \<Rightarrow> error + (string \<times> nat) list" where
  "make_allServices services =
     (case mapM_e first_id services of
        Inl err \<Rightarrow> Inl err
      | Inr keys \<Rightarrow>
          Inr (fold (\<lambda>(i, k) m. AList.update (str_sid k) i m) (enumerate 0 keys) []))"

text \<open>\<^verbatim>\<open>svc = allServices.get(str(id)); assert(svc)\<close>.\<close>

definition get_asserted :: "(string \<times> nat) list \<Rightarrow> sid \<Rightarrow> error + nat" where
  "get_asserted allServices k =
     (case map_of allServices (str_sid k) of None \<Rightarrow> Inl AssertionError | Some i \<Rightarrow> Inr i)"

text \<open>
  \<^verbatim>\<open>fixPath(rc)\<close> returns the itinerary, whose status it may have set, and the path:
  \<open>Some []\<close> for the discarded itinerary, \<open>Some path\<close> for the path rebuilt from the
  summary, \<open>None\<close> when the function ends without a \<^verbatim>\<open>return\<close>.
\<close>

definition fixPath :: "Service list \<Rightarrow> RakeCycle \<Rightarrow> error + (RakeCycle \<times> nat list option)" where
  "fixPath services rc =
     (case serviceIds rc of
        [] \<Rightarrow> Inl IndexError
      | sid # rest \<Rightarrow>
          if undefinedIds rc \<noteq> [] then Inr (rc\<lparr>status := INVALID\<rparr>, Some [])
          else
            (case make_allServices services of
               Inl err \<Rightarrow> Inl err
             | Inr allServices \<Rightarrow>
            (case get_asserted allServices sid of
               Inl err \<Rightarrow> Inl err
             | Inr s \<Rightarrow>
                 if list_ex (\<lambda>i. str_sid sid = str_linkedTo (services ! i)) (map snd allServices)
                 then (case mapM_e (get_asserted allServices) (serviceIds rc) of
                         Inl err \<Rightarrow> Inl err
                       | Inr path \<Rightarrow> Inr (rc, Some path))
                 else Inr (rc, None))))"

subsection \<open>Linking itineraries to chains\<close>

text \<open>\<^verbatim>\<open>path[0]\<close>.\<close>

definition py_first :: "'a list \<Rightarrow> error + 'a" where
  "py_first xs = (case xs of [] \<Rightarrow> Inl IndexError | x # r \<Rightarrow> Inr x)"

text \<open>The inner loop over \<^verbatim>\<open>self.allCyclesWtt\<close>: the last chain whose first service has
  the itinerary's first identifier, both printed, becomes the service path.\<close>

fun match_paths :: "Service list \<Rightarrow> RakeCycle \<Rightarrow> nat list list \<Rightarrow> error + RakeCycle" where
  "match_paths services rc [] = Inr rc"
| "match_paths services rc (path # rest) =
     (case py_first (serviceIds rc) of
        Inl err \<Rightarrow> Inl err
      | Inr k \<Rightarrow>
     (case py_first path of
        Inl err \<Rightarrow> Inl err
      | Inr r \<Rightarrow>
     (case first_id (services ! r) of
        Inl err \<Rightarrow> Inl err
      | Inr k' \<Rightarrow>
          match_paths services
            (if str_sid k = str_sid k' then rc\<lparr>servicePath := Some path\<rparr> else rc) rest)))"

text \<open>Python truth of \<^verbatim>\<open>rc.servicePath\<close>: neither \<^verbatim>\<open>None\<close> nor empty.\<close>

definition has_path :: "RakeCycle \<Rightarrow> bool" where
  "has_path rc = (case servicePath rc of None \<Rightarrow> False | Some path \<Rightarrow> path \<noteq> [])"

text \<open>
  One pass of the loop over \<^verbatim>\<open>self.rakecycles\<close>. The result is the itinerary after the
  pass and whether it was appended to \<^verbatim>\<open>invalid\<close>. The debug message of the fix-up
  branch reads \<^verbatim>\<open>rc.serviceIds[0]\<close> and then the loop variable \<^verbatim>\<open>path\<close>, which is
  unbound when there is no chain at all.
\<close>

definition link_rc :: "Service list \<Rightarrow> nat list list \<Rightarrow> RakeCycle \<Rightarrow> error + (RakeCycle \<times> bool)"
  where
  "link_rc services cycles rc =
     (case match_paths services rc cycles of
        Inl err \<Rightarrow> Inl err
      | Inr rc1 \<Rightarrow>
          if has_path rc1 then Inr (rc1, False)
          else if serviceIds rc1 = [] then Inl IndexError
          else if cycles = [] then Inl UnboundLocalError
          else (case fixPath services rc1 of
                  Inl err \<Rightarrow> Inl err
                | Inr (rc2, fixedPath) \<Rightarrow>
                    Inr (rc2\<lparr>servicePath := fixedPath\<rparr>, status rc2 = INVALID)))"

text \<open>
  \<^verbatim>\<open>generateRakeCycles\<close> up to the removal of the invalid itineraries: the sort, chain
  discovery, the loop that prints the identifiers of every chain, the linking loop and
  the removal.
\<close>

definition generateRakeCycles_link :: "TimeTable \<Rightarrow> error + TimeTable" where
  "generateRakeCycles_link tt =
     (case sort_services (suburbanServices tt) of
        Inl err \<Rightarrow> Inl err
      | Inr svs \<Rightarrow>
          (let tt1 = makeRakeCyclePathsSV (tt\<lparr>suburbanServices := svs\<rparr>) svs
           in case mapM_e (wttPath_of svs) (allCyclesWtt tt1) of
                Inl err \<Rightarrow> Inl err
              | Inr sidpaths \<Rightarrow>
                  (case mapM_e (link_rc svs (allCyclesWtt tt1)) (rakecycles tt1) of
                     Inl err \<Rightarrow> Inl err
                   | Inr linked \<Rightarrow>
                       Inr (tt1\<lparr>rakecycles := map fst (filter (\<lambda>p. \<not> snd p) linked)\<rparr>))))"

text \<open>\<^verbatim>\<open>generateRakeCycles\<close> up to and including \<^verbatim>\<open>self.validateRakeCycles()\<close>.\<close>

definition generateRakeCycles_validated :: "TimeTable \<Rightarrow> error + TimeTable" where
  "generateRakeCycles_validated tt = bind_e (generateRakeCycles_link tt) validateRakeCycles"

lemma match_paths_fields:
  "match_paths services rc cycles = Inr rc1 \<Longrightarrow>
   undefinedIds rc1 = undefinedIds rc \<and> serviceIds rc1 = serviceIds rc
   \<and> status rc1 = status rc \<and> linkName rc1 = linkName rc"
proof (induction cycles arbitrary: rc)
  case Nil
  then show ?case by simp
next
  case (Cons path rest)
  from Cons.prems obtain k r k' where
    "match_paths services
       (if str_sid k = str_sid k' then rc\<lparr>servicePath := Some path\<rparr> else rc) rest = Inr rc1"
    by (auto split: sum.splits)
  from Cons.IH [OF this] show ?case by (simp split: if_splits)
qed

text \<open>No chain starts with the itinerary's first identifier.\<close>

definition no_chain_match :: "Service list \<Rightarrow> nat list list \<Rightarrow> RakeCycle \<Rightarrow> bool" where
  "no_chain_match services cycles rc =
     list_all (\<lambda>path. path \<noteq> [] \<and> serviceId (services ! hd path) \<noteq> []
        \<and> str_sid (hd (serviceIds rc)) \<noteq> str_sid (hd (serviceId (services ! hd path)))) cycles"

lemma match_paths_no_match:
  "no_chain_match services cycles rc \<Longrightarrow> serviceIds rc \<noteq> [] \<Longrightarrow>
   match_paths services rc cycles = Inr rc"
proof (induction cycles)
  case Nil
  then show ?case by simp
next
  case (Cons path rest)
  obtain k ks where k: "serviceIds rc = k # ks" using Cons.prems(2) by (cases "serviceIds rc") auto
  obtain r rs where r: "path = r # rs"
    using Cons.prems(1) by (cases path) (auto simp add: no_chain_match_def)
  obtain k' ks' where k': "serviceId (services ! r) = k' # ks'"
    using Cons.prems(1) r by (cases "serviceId (services ! r)") (auto simp add: no_chain_match_def)
  have ne: "str_sid k \<noteq> str_sid k'"
    using Cons.prems(1) k r k' by (simp add: no_chain_match_def)
  have rest: "no_chain_match services rest rc"
    using Cons.prems(1) by (simp add: no_chain_match_def)
  show ?case
    using k r k' ne Cons.IH [OF rest Cons.prems(2)]
    by (simp add: py_first_def first_id_def)
qed

lemma link_rc_survivor:
  "link_rc services cycles rc = Inr (rc2, False) \<Longrightarrow> undefinedIds rc2 \<noteq> [] \<Longrightarrow> has_path rc2"
proof -
  assume a: "link_rc services cycles rc = Inr (rc2, False)" and u: "undefinedIds rc2 \<noteq> []"
  obtain rc1 where rc1: "match_paths services rc cycles = Inr rc1"
    using a by (auto simp add: link_rc_def split: sum.splits)
  show ?thesis
  proof (cases "has_path rc1")
    case True
    then show ?thesis using a rc1 by (simp add: link_rc_def)
  next
    case False
    then obtain rc3 fixedPath where f: "fixPath services rc1 = Inr (rc3, fixedPath)"
        "rc2 = rc3\<lparr>servicePath := fixedPath\<rparr>" "status rc3 \<noteq> INVALID"
      using a rc1 by (auto simp add: link_rc_def split: sum.splits if_splits)
    have "undefinedIds rc1 = []"
    proof (rule ccontr)
      assume "undefinedIds rc1 \<noteq> []"
      then have "status rc3 = INVALID"
        using f(1) by (auto simp add: fixPath_def split: list.splits)
      then show False using f(3) by simp
    qed
    moreover have "undefinedIds rc3 = undefinedIds rc1"
      using f(1) by (auto simp add: fixPath_def split: list.splits if_splits sum.splits)
    ultimately show ?thesis using u f(2) by simp
  qed
qed


lemma mapM_e_set:
  "mapM_e f xs = Inr ys \<Longrightarrow> y \<in> set ys \<Longrightarrow> \<exists>x \<in> set xs. f x = Inr y"
proof (induction xs arbitrary: ys)
  case Nil
  then show ?case by simp
next
  case (Cons x xs)
  from Cons.prems(1) obtain z zs where z: "f x = Inr z" "mapM_e f xs = Inr zs" "ys = z # zs"
    by (auto split: sum.splits)
  show ?case
  proof (cases "y = z")
    case True
    then show ?thesis using z(1) by simp
  next
    case False
    then have "y \<in> set zs" using Cons.prems(2) z(3) by simp
    then show ?thesis using Cons.IH [OF z(2)] by auto
  qed
qed

text \<open>
  The fix-up branch applies the undefined-identifier rule. An itinerary with an undefined
  identifier that holds no service path after chain matching, there being a chain but
  none that starts with its first declared identifier, is marked invalid by
  \<^verbatim>\<open>fixPath\<close>, given the empty path and appended to the list of itineraries to remove;
  the pass keeps exactly the itineraries that were not appended, so an itinerary with an
  undefined identifier that is still active after the pass holds a service path.
\<close>

lemma link_rc_undefined_without_chain:
  "(undefinedIds rc \<noteq> [] \<longrightarrow> serviceIds rc \<noteq> [] \<longrightarrow> \<not> has_path rc \<longrightarrow> cycles \<noteq> [] \<longrightarrow>
      no_chain_match services cycles rc \<longrightarrow>
      link_rc services cycles rc = Inr (rc\<lparr>status := INVALID, servicePath := Some []\<rparr>, True))
   \<and> (generateRakeCycles_link tt = Inr tt' \<longrightarrow>
        (\<exists>linked. mapM_e (link_rc (suburbanServices tt') (allCyclesWtt tt')) (rakecycles tt)
                     = Inr linked
           \<and> rakecycles tt' = map fst (filter (\<lambda>p. \<not> snd p) linked))
        \<and> (\<forall>rc' \<in> set (rakecycles tt'). undefinedIds rc' \<noteq> [] \<longrightarrow> has_path rc'))"
proof -
  have one: "link_rc services cycles rc = Inr (rc\<lparr>status := INVALID, servicePath := Some []\<rparr>, True)"
    if a: "undefinedIds rc \<noteq> []" "serviceIds rc \<noteq> []" "\<not> has_path rc" "cycles \<noteq> []"
      "no_chain_match services cycles rc"
  proof -
    have m: "match_paths services rc cycles = Inr rc"
      using match_paths_no_match [OF a(5) a(2)] .
    obtain k ks where k: "serviceIds rc = k # ks" using a(2) by (cases "serviceIds rc") auto
    have f: "fixPath services rc = Inr (rc\<lparr>status := INVALID\<rparr>, Some [])"
      using a(1) k by (simp add: fixPath_def)
    show ?thesis using m f a(2,3,4) by (simp add: link_rc_def)
  qed
  have pass: "(\<exists>linked. mapM_e (link_rc (suburbanServices tt') (allCyclesWtt tt')) (rakecycles tt)
                     = Inr linked
           \<and> rakecycles tt' = map fst (filter (\<lambda>p. \<not> snd p) linked))
        \<and> (\<forall>rc' \<in> set (rakecycles tt'). undefinedIds rc' \<noteq> [] \<longrightarrow> has_path rc')"
    if g: "generateRakeCycles_link tt = Inr tt'"
  proof -
    obtain svs where svs: "sort_services (suburbanServices tt) = Inr svs"
      using g by (auto simp add: generateRakeCycles_link_def split: sum.splits)
    define tt1 where "tt1 = makeRakeCyclePathsSV (tt\<lparr>suburbanServices := svs\<rparr>) svs"
    obtain linked where linked: "mapM_e (link_rc svs (allCyclesWtt tt1)) (rakecycles tt1) = Inr linked"
        and tt': "tt' = tt1\<lparr>rakecycles := map fst (filter (\<lambda>p. \<not> snd p) linked)\<rparr>"
      using g svs unfolding generateRakeCycles_link_def tt1_def
      by (auto simp add: Let_def split: sum.splits)
    have fields: "suburbanServices tt' = svs" "allCyclesWtt tt' = allCyclesWtt tt1"
        "rakecycles tt1 = rakecycles tt"
        "rakecycles tt' = map fst (filter (\<lambda>p. \<not> snd p) linked)"
      using tt' by (simp_all add: tt1_def makeRakeCyclePathsSV_def)
    have first: "\<exists>linked. mapM_e (link_rc (suburbanServices tt') (allCyclesWtt tt')) (rakecycles tt)
                     = Inr linked
           \<and> rakecycles tt' = map fst (filter (\<lambda>p. \<not> snd p) linked)"
      using linked fields by auto
    have second: "has_path rc'" if mem: "rc' \<in> set (rakecycles tt')" and u: "undefinedIds rc' \<noteq> []"
      for rc'
    proof -
      have "(rc', False) \<in> set linked" using mem fields(4) by auto
      then obtain rc0 where "link_rc svs (allCyclesWtt tt1) rc0 = Inr (rc', False)"
        using mapM_e_set [OF linked] by blast
      then show ?thesis using link_rc_survivor u by blast
    qed
    show ?thesis using first second by blast
  qed
  show ?thesis using one pass by blast
qed

subsection \<open>Two services, one chain\<close>

lemma two_services_sorted: "sort_services two_services = Inr two_services"
  by (simp add: sort_services_def first_id_def two_services_def new_Service_def)

lemma two_services_idMap: "make_idMap two_services = [(IntId 93001, 0), (IntId 93002, 1)]"
  by (simp add: make_idMap_def two_services_def new_Service_def)

lemma two_services_links:
  "links [(IntId 93001, 0), (IntId 93002, 1)] two_services = [Some (IntId 93001, IntId 93002), None]"
  by (simp add: links_def link_of_def next_id_of_examples two_services_def new_Service_def)

lemma two_services_chains:
  "discover_chains two_services = ([IntId 93001, IntId 93002], [[0, 1]])"
  unfolding discover_chains_def build_adj_def two_services_idMap two_services_links
  by (simp add: chain_step_def followChain.simps record_link_def)

lemma two_services_wttPath: "wttPath_of two_services [0, 1] = Inr [IntId 93001, IntId 93002]"
  by (simp add: wttPath_of_def first_id_def two_services_def new_Service_def)

text \<open>An itinerary none of whose identifiers is a service of the timetable: no chain
  starts with its first identifier, and \<^verbatim>\<open>fixPath\<close> discards it.\<close>

definition rc_undefined :: RakeCycle where
  "rc_undefined = new_RakeCycle ''B''\<lparr>serviceIds := [IntId 93005, IntId 93006],
     undefinedIds := [(''B'', IntId 93005), (''B'', IntId 93006)]\<rparr>"

lemmas link_eval = link_rc_def has_path_def py_first_def first_id_def fixPath_def
  str_int_def str_nat.simps new_RakeCycle_def new_Service_def

lemma rc_undefined_link:
  "link_rc two_services [[0, 1]] rc_undefined
     = Inr (rc_undefined\<lparr>status := INVALID, servicePath := Some []\<rparr>, True)"
  by (simp add: link_eval rc_undefined_def two_services_def)

lemma rc_undefined_discarded:
  "generateRakeCycles_validated \<lparr>suburbanServices = two_services, allCyclesWtt = [],
        rakecycles = [rc_undefined], conflictingLinks = []\<rparr>
     = Inr \<lparr>suburbanServices = two_services, allCyclesWtt = [[0, 1]],
        rakecycles = [], conflictingLinks = []\<rparr>"
proof -
  have "generateRakeCycles_link \<lparr>suburbanServices = two_services, allCyclesWtt = [],
        rakecycles = [rc_undefined], conflictingLinks = []\<rparr>
     = Inr \<lparr>suburbanServices = two_services, allCyclesWtt = [[0, 1]],
        rakecycles = [], conflictingLinks = []\<rparr>"
    by (simp add: generateRakeCycles_link_def two_services_sorted makeRakeCyclePathsSV_def
        two_services_chains two_services_wttPath rc_undefined_link Let_def del: One_nat_def)
  then show ?thesis
    by (simp add: generateRakeCycles_validated_def bind_e_def validateRakeCycles_def)
qed

text \<open>With no chain at all the fix-up branch raises before \<^verbatim>\<open>fixPath\<close> is called: its
  debug message reads the loop variable \<^verbatim>\<open>path\<close>, which was never bound.\<close>

lemma rc_undefined_no_chain:
  "link_rc two_services [] rc_undefined = Inl UnboundLocalError"
  by (simp add: link_eval rc_undefined_def)

text \<open>
  Two itineraries that declare an identifier no service carries and whose first
  identifier starts the chain of the two services: one ends in the placeholder
  \<^verbatim>\<open>ETY 1\<close>, the other in the number 99999.
\<close>

definition rc_trailing_undefined :: RakeCycle where
  "rc_trailing_undefined = new_RakeCycle ''A''\<lparr>
     serviceIds := [IntId 93001, IntId 93002, StrId ''ETY 1''],
     undefinedIds := [(''A'', StrId ''ETY 1'')]\<rparr>"

definition rc_number_undefined :: RakeCycle where
  "rc_number_undefined = new_RakeCycle ''C''\<lparr>
     serviceIds := [IntId 93001, IntId 93002, IntId 99999],
     undefinedIds := [(''C'', IntId 99999)]\<rparr>"

lemma rc_trailing_undefined_link:
  "link_rc two_services [[0, 1]] rc_trailing_undefined
     = Inr (rc_trailing_undefined\<lparr>servicePath := Some [0, 1]\<rparr>, False)"
  by (simp add: link_eval rc_trailing_undefined_def two_services_def)

lemma rc_number_undefined_link:
  "link_rc two_services [[0, 1]] rc_number_undefined
     = Inr (rc_number_undefined\<lparr>servicePath := Some [0, 1]\<rparr>, False)"
  by (simp add: link_eval rc_number_undefined_def two_services_def)

lemma rc_trailing_undefined_validate:
  "validate_rc two_services (rc_trailing_undefined\<lparr>servicePath := Some [0, 1]\<rparr>) = Inr None"
  by (simp add: validate_rc_def two_services_wttPath py_last_def is_ETY_def
      rc_trailing_undefined_def new_RakeCycle_def Let_def del: One_nat_def)

lemma rc_number_undefined_validate:
  "validate_rc two_services (rc_number_undefined\<lparr>servicePath := Some [0, 1]\<rparr>)
     = Inr (Some [IntId 93001, IntId 93002])"
  by (simp add: validate_rc_def two_services_wttPath py_last_def is_ETY_def
      rc_number_undefined_def new_RakeCycle_def str_int_def str_nat.simps Let_def
      del: One_nat_def)

text \<open>
  Claim C1 (the code departs from it). Both itineraries have an undefined identifier, and
  neither is marked invalid: the chain is assigned to them by their first identifier,
  so \<^verbatim>\<open>fixPath\<close>, the one place that reads \<^verbatim>\<open>undefinedIds\<close>, is not called. The first
  stays in the active set, valid, because validation tolerates the trailing
  placeholder. The second leaves the active set only as a conflict of validation, its
  status still valid.
\<close>

theorem generateRakeCycles_undefined_id_with_chain:
  "undefinedIds rc_trailing_undefined = [(''A'', StrId ''ETY 1'')]
   \<and> generateRakeCycles_validated \<lparr>suburbanServices = two_services, allCyclesWtt = [],
        rakecycles = [rc_trailing_undefined], conflictingLinks = []\<rparr>
     = Inr \<lparr>suburbanServices = two_services, allCyclesWtt = [[0, 1]],
        rakecycles = [rc_trailing_undefined\<lparr>servicePath := Some [0, 1]\<rparr>],
        conflictingLinks = []\<rparr>
   \<and> status (rc_trailing_undefined\<lparr>servicePath := Some [0, 1]\<rparr>) = VALID
   \<and> undefinedIds rc_number_undefined = [(''C'', IntId 99999)]
   \<and> generateRakeCycles_validated \<lparr>suburbanServices = two_services, allCyclesWtt = [],
        rakecycles = [rc_number_undefined], conflictingLinks = []\<rparr>
     = Inr \<lparr>suburbanServices = two_services, allCyclesWtt = [[0, 1]],
        rakecycles = [],
        conflictingLinks = [(rc_number_undefined\<lparr>servicePath := Some [0, 1]\<rparr>,
                             [IntId 93001, IntId 93002])]\<rparr>
   \<and> status (rc_number_undefined\<lparr>servicePath := Some [0, 1]\<rparr>) = VALID"
proof -
  have link1: "generateRakeCycles_link \<lparr>suburbanServices = two_services, allCyclesWtt = [],
        rakecycles = [rc_trailing_undefined], conflictingLinks = []\<rparr>
     = Inr \<lparr>suburbanServices = two_services, allCyclesWtt = [[0, 1]],
        rakecycles = [rc_trailing_undefined\<lparr>servicePath := Some [0, 1]\<rparr>],
        conflictingLinks = []\<rparr>"
    by (simp add: generateRakeCycles_link_def two_services_sorted makeRakeCyclePathsSV_def
        two_services_chains two_services_wttPath rc_trailing_undefined_link Let_def
        del: One_nat_def)
  have val1: "validateRakeCycles \<lparr>suburbanServices = two_services, allCyclesWtt = [[0, 1]],
        rakecycles = [rc_trailing_undefined\<lparr>servicePath := Some [0, 1]\<rparr>],
        conflictingLinks = []\<rparr>
     = Inr \<lparr>suburbanServices = two_services, allCyclesWtt = [[0, 1]],
        rakecycles = [rc_trailing_undefined\<lparr>servicePath := Some [0, 1]\<rparr>],
        conflictingLinks = []\<rparr>"
    by (simp add: validateRakeCycles_def rc_trailing_undefined_validate del: One_nat_def)
  have link2: "generateRakeCycles_link \<lparr>suburbanServices = two_services, allCyclesWtt = [],
        rakecycles = [rc_number_undefined], conflictingLinks = []\<rparr>
     = Inr \<lparr>suburbanServices = two_services, allCyclesWtt = [[0, 1]],
        rakecycles = [rc_number_undefined\<lparr>servicePath := Some [0, 1]\<rparr>],
        conflictingLinks = []\<rparr>"
    by (simp add: generateRakeCycles_link_def two_services_sorted makeRakeCyclePathsSV_def
        two_services_chains two_services_wttPath rc_number_undefined_link Let_def
        del: One_nat_def)
  have val2: "validateRakeCycles \<lparr>suburbanServices = two_services, allCyclesWtt = [[0, 1]],
        rakecycles = [rc_number_undefined\<lparr>servicePath := Some [0, 1]\<rparr>],
        conflictingLinks = []\<rparr>
     = Inr \<lparr>suburbanServices = two_services, allCyclesWtt = [[0, 1]],
        rakecycles = [],
        conflictingLinks = [(rc_number_undefined\<lparr>servicePath := Some [0, 1]\<rparr>,
                             [IntId 93001, IntId 93002])]\<rparr>"
    by (simp add: validateRakeCycles_def rc_number_undefined_validate del: One_nat_def)
  have fields: "undefinedIds rc_trailing_undefined = [(''A'', StrId ''ETY 1'')]"
      "status (rc_trailing_undefined\<lparr>servicePath := Some [0, 1]\<rparr>) = VALID"
      "undefinedIds rc_number_undefined = [(''C'', IntId 99999)]"
      "status (rc_number_undefined\<lparr>servicePath := Some [0, 1]\<rparr>) = VALID"
    by (simp_all add: rc_trailing_undefined_def rc_number_undefined_def new_RakeCycle_def)
  show ?thesis
    using link1 val1 link2 val2 fields
    by (simp add: generateRakeCycles_validated_def bind_e_def del: One_nat_def)
qed

section \<open>Render predicates: \<^verbatim>\<open>Simulator.applyServiceFilters\<close>\<close>

text \<open>
  \<^verbatim>\<open>FilterQuery\<close>, the fields the service filter pass reads. \<^verbatim>\<open>ac\<close> is compared with
  the texts \<^verbatim>\<open>"all"\<close>, \<^verbatim>\<open>"ac"\<close> and \<^verbatim>\<open>"nonac"\<close>.
\<close>

record FilterQuery =
  startStation :: "string option"
  endStation :: "string option"
  passingThrough :: "string list"
  inTimePeriod :: "(int \<times> int) option"
  ac :: "string option"
  inDirection :: "string list option"

text \<open>\<^verbatim>\<open>str.upper\<close> on ASCII.\<close>

definition upper_char :: "char \<Rightarrow> char" where
  "upper_char c =
     (case map_of (zip ''abcdefghijklmnopqrstuvwxyz'' ''ABCDEFGHIJKLMNOPQRSTUVWXYZ'') c of
        None \<Rightarrow> c
      | Some u \<Rightarrow> u)"

definition upper :: "string \<Rightarrow> string" where
  "upper s = map upper_char s"

text \<open>\<^verbatim>\<open>t_lower, t_upper = qq.inTimePeriod\<close> raises \<^verbatim>\<open>TypeError\<close> on \<^verbatim>\<open>None\<close>, and so
  does the comparison \<^verbatim>\<open>t_lower <= t <= t_upper\<close> when the event time is \<^verbatim>\<open>None\<close>.\<close>

definition unpack_period :: "FilterQuery \<Rightarrow> error + (int \<times> int)" where
  "unpack_period qq = (case inTimePeriod qq of None \<Rightarrow> Inl TypeError | Some w \<Rightarrow> Inr w)"

definition in_window :: "int \<times> int \<Rightarrow> rat option \<Rightarrow> error + bool" where
  "in_window w t =
     (case t of
        None \<Rightarrow> Inl TypeError
      | Some x \<Rightarrow> Inr (of_int (fst w) \<le> x \<and> x \<le> of_int (snd w)))"

text \<open>Python truth of an optional text: neither \<^verbatim>\<open>None\<close> nor empty.\<close>

definition given :: "string option \<Rightarrow> bool" where
  "given s = (case s of None \<Rightarrow> False | Some t \<Rightarrow> t \<noteq> [])"

definition checkStartStationConstraint :: "FilterQuery \<Rightarrow> Service \<Rightarrow> error + Service" where
  "checkStartStationConstraint qq svc =
     (if \<not> given (startStation qq) then Inr svc
      else
        (case py_first (events svc) of
           Inl err \<Rightarrow> Inl err
         | Inr e \<Rightarrow>
        (case unpack_period qq of
           Inl err \<Rightarrow> Inl err
         | Inr w \<Rightarrow>
             if atStation e = the (startStation qq) then
               (case in_window w (atTime e) of
                  Inl err \<Rightarrow> Inl err
                | Inr inside \<Rightarrow>
                    if \<not> inside then Inr (svc\<lparr>svc_render := svc_render svc \<and> False\<rparr>)
                    else Inr svc)
             else Inr (svc\<lparr>svc_render := svc_render svc \<and> False\<rparr>))))"

definition checkEndStationConstraint :: "FilterQuery \<Rightarrow> Service \<Rightarrow> error + Service" where
  "checkEndStationConstraint qq svc =
     (if \<not> given (endStation qq) then Inr svc
      else
        (case py_last (events svc) of
           Inl err \<Rightarrow> Inl err
         | Inr e \<Rightarrow>
        (case unpack_period qq of
           Inl err \<Rightarrow> Inl err
         | Inr w \<Rightarrow>
             if atStation e = the (endStation qq) then
               (case in_window w (atTime e) of
                  Inl err \<Rightarrow> Inl err
                | Inr inside \<Rightarrow>
                    if \<not> inside then Inr (svc\<lparr>svc_render := svc_render svc \<and> False\<rparr>)
                    else Inr svc)
             else Inr (svc\<lparr>svc_render := svc_render svc \<and> False\<rparr>))))"

definition checkDirectionConstraint :: "FilterQuery \<Rightarrow> Service \<Rightarrow> error + Service" where
  "checkDirectionConstraint qq svc =
     (case inDirection qq of
        None \<Rightarrow> Inr svc
      | Some dir \<Rightarrow>
          if dir = [] then Inr svc
          else if list_ex (\<lambda>d. (d = ''UP'' \<and> direction svc = Some UP)
                             \<or> (d = ''DOWN'' \<and> direction svc = Some DOWN)) dir
            then Inr svc
          else Inr (svc\<lparr>svc_render := svc_render svc \<and> False\<rparr>))"

definition checkACConstraint :: "FilterQuery \<Rightarrow> Service \<Rightarrow> error + Service" where
  "checkACConstraint qq svc =
     (if \<not> given (ac qq) \<or> ac qq = Some ''all'' then Inr svc
      else if ac qq = Some ''ac'' \<and> \<not> needsACRake svc
        then Inr (svc\<lparr>svc_render := svc_render svc \<and> False\<rparr>)
      else if ac qq = Some ''nonac'' \<and> needsACRake svc
        then Inr (svc\<lparr>svc_render := svc_render svc \<and> False\<rparr>)
      else Inr svc)"

text \<open>\<^verbatim>\<open>stnMapTimes\<close>: for every station of the service its event times in order.\<close>

definition stnMapTimes :: "StationEvent list \<Rightarrow> string \<Rightarrow> rat option list option" where
  "stnMapTimes evs =
     fold (\<lambda>e m. m(atStation e \<mapsto>
             (case m (atStation e) of None \<Rightarrow> [] | Some ts \<Rightarrow> ts) @ [atTime e]))
       evs Map.empty"

text \<open>The loop over the stations of the query, each pass ending the method when it
  clears the flag.\<close>

fun passing_loop ::
  "FilterQuery \<Rightarrow> (string \<Rightarrow> rat option list option) \<Rightarrow> string list \<Rightarrow> Service \<Rightarrow> error + Service"
  where
  "passing_loop qq m [] svc = Inr svc"
| "passing_loop qq m (st # sts) svc =
     (case m st of
        None \<Rightarrow> Inr (svc\<lparr>svc_render := svc_render svc \<and> False\<rparr>)
      | Some ts \<Rightarrow>
     (case py_last ts of
        Inl err \<Rightarrow> Inl err
      | Inr t \<Rightarrow>
     (case unpack_period qq of
        Inl err \<Rightarrow> Inl err
      | Inr w \<Rightarrow>
     (case in_window w t of
        Inl err \<Rightarrow> Inl err
      | Inr inside \<Rightarrow>
          if \<not> inside then Inr (svc\<lparr>svc_render := svc_render svc \<and> False\<rparr>)
          else passing_loop qq m sts svc))))"

definition checkPassingThroughConstraint :: "FilterQuery \<Rightarrow> Service \<Rightarrow> error + Service" where
  "checkPassingThroughConstraint qq svc =
     (if map upper (passingThrough qq) = [] then Inr svc
      else passing_loop qq (stnMapTimes (events svc)) (map upper (passingThrough qq)) svc)"

text \<open>The five checks in the order \<^verbatim>\<open>applyServiceFilters\<close> calls them.\<close>

definition service_checks :: "(FilterQuery \<Rightarrow> Service \<Rightarrow> error + Service) list" where
  "service_checks =
     [checkDirectionConstraint, checkACConstraint, checkStartStationConstraint,
      checkEndStationConstraint, checkPassingThroughConstraint]"

fun run_checks ::
  "(FilterQuery \<Rightarrow> Service \<Rightarrow> error + Service) list \<Rightarrow> FilterQuery \<Rightarrow> Service \<Rightarrow> error + Service"
  where
  "run_checks [] qq svc = Inr svc"
| "run_checks (c # cs) qq svc =
     (case c qq svc of Inl err \<Rightarrow> Inl err | Inr svc' \<Rightarrow> run_checks cs qq svc')"

text \<open>The body of the loop over \<^verbatim>\<open>suburbanServices\<close>.\<close>

definition filter_service :: "FilterQuery \<Rightarrow> Service \<Rightarrow> error + Service" where
  "filter_service qq svc =
     (if events svc = [] then Inr (svc\<lparr>svc_render := False\<rparr>)
      else run_checks service_checks qq
             (svc\<lparr>svc_render := True,
                  events := map (\<lambda>ev. ev\<lparr>ev_render := True\<rparr>) (events svc)\<rparr>))"

text \<open>The body of the loop over \<^verbatim>\<open>rakecycles\<close>, reading the flags of the services the
  path refers to.\<close>

definition filter_rakecycle :: "Service list \<Rightarrow> RakeCycle \<Rightarrow> RakeCycle" where
  "filter_rakecycle services rc =
     rc\<lparr>rc_render := has_path rc
          \<and> list_ex (\<lambda>i. svc_render (services ! i)) (the (servicePath rc))\<rparr>"

definition applyServiceFilters :: "FilterQuery \<Rightarrow> TimeTable \<Rightarrow> error + TimeTable" where
  "applyServiceFilters qq tt =
     (case mapM_e (filter_service qq) (suburbanServices tt) of
        Inl err \<Rightarrow> Inl err
      | Inr services \<Rightarrow>
          Inr (tt\<lparr>suburbanServices := services,
                  rakecycles := map (filter_rakecycle services) (rakecycles tt)\<rparr>))"

subsection \<open>Every check only clears the flag\<close>

definition narrows :: "Service \<Rightarrow> Service \<Rightarrow> bool" where
  "narrows svc svc' =
     ((svc_render svc' \<longrightarrow> svc_render svc) \<and> svc' = svc\<lparr>svc_render := svc_render svc'\<rparr>)"

lemma narrows_refl: "narrows svc svc"
  by (simp add: narrows_def)

lemma narrows_clear: "narrows svc (svc\<lparr>svc_render := False\<rparr>)"
  by (simp add: narrows_def)

lemma narrows_trans: "narrows a b \<Longrightarrow> narrows b c \<Longrightarrow> narrows a c"
  unfolding narrows_def by (metis Service.surjective Service.update_convs(7))

lemma passing_loop_narrows: "passing_loop qq m sts svc = Inr svc' \<Longrightarrow> narrows svc svc'"
  by (induction sts) (auto simp add: narrows_refl narrows_clear split: option.splits sum.splits if_splits)

lemma check_narrows:
  "checkDirectionConstraint qq svc = Inr svc' \<Longrightarrow> narrows svc svc'"
  "checkACConstraint qq svc = Inr svc' \<Longrightarrow> narrows svc svc'"
  "checkStartStationConstraint qq svc = Inr svc' \<Longrightarrow> narrows svc svc'"
  "checkEndStationConstraint qq svc = Inr svc' \<Longrightarrow> narrows svc svc'"
  "checkPassingThroughConstraint qq svc = Inr svc' \<Longrightarrow> narrows svc svc'"
  by (auto simp add: checkDirectionConstraint_def checkACConstraint_def
      checkStartStationConstraint_def checkEndStationConstraint_def
      checkPassingThroughConstraint_def narrows_refl narrows_clear passing_loop_narrows
      split: option.splits sum.splits if_splits)

lemma service_checks_narrow:
  "c \<in> set service_checks \<Longrightarrow> c qq svc = Inr svc' \<Longrightarrow> narrows svc svc'"
  by (auto simp add: service_checks_def check_narrows)

lemma run_checks_narrows:
  "set cs \<subseteq> set service_checks \<Longrightarrow> run_checks cs qq svc = Inr svc' \<Longrightarrow> narrows svc svc'"
proof (induction cs arbitrary: svc)
  case Nil
  then show ?case by (simp add: narrows_refl)
next
  case (Cons c cs)
  from Cons.prems(2) obtain mid where mid: "c qq svc = Inr mid" "run_checks cs qq mid = Inr svc'"
    by (auto split: sum.splits)
  have "narrows svc mid" using service_checks_narrow [of c qq svc mid] Cons.prems(1) mid(1) by simp
  moreover have "narrows mid svc'" using Cons.IH [of mid] Cons.prems(1) mid(2) by simp
  ultimately show ?case by (rule narrows_trans)
qed


subsection \<open>Running the pass again\<close>

lemma filter_service_fixed:
  assumes "filter_service qq svc = Inr svc'"
  shows "filter_service qq svc' = Inr svc'"
proof (cases "events svc = []")
  case True
  then have "svc' = svc\<lparr>svc_render := False\<rparr>" using assms by (simp add: filter_service_def)
  then show ?thesis using True by (simp add: filter_service_def)
next
  case False
  define r where "r = svc\<lparr>svc_render := True,
      events := map (\<lambda>ev. ev\<lparr>ev_render := True\<rparr>) (events svc)\<rparr>"
  have run: "run_checks service_checks qq r = Inr svc'"
    using assms False by (simp add: filter_service_def r_def)
  have "narrows r svc'" using run_checks_narrows [OF _ run] by simp
  then have shape: "svc' = r\<lparr>svc_render := svc_render svc'\<rparr>" by (simp add: narrows_def)
  have ev: "events svc' = map (\<lambda>ev. ev\<lparr>ev_render := True\<rparr>) (events svc)"
    using shape by (metis Service.select_convs(6) Service.surjective Service.update_convs(6,7) r_def)
  have again: "svc'\<lparr>svc_render := True,
      events := map (\<lambda>ev. ev\<lparr>ev_render := True\<rparr>) (events svc')\<rparr> = r"
  proof -
    have "map (\<lambda>ev. ev\<lparr>ev_render := True\<rparr>) (events svc')
        = map (\<lambda>ev. ev\<lparr>ev_render := True\<rparr>) (events svc)"
      using ev by (simp add: comp_def)
    then have "svc'\<lparr>svc_render := True,
        events := map (\<lambda>ev. ev\<lparr>ev_render := True\<rparr>) (events svc')\<rparr>
        = (r\<lparr>svc_render := svc_render svc'\<rparr>)\<lparr>svc_render := True,
            events := map (\<lambda>ev. ev\<lparr>ev_render := True\<rparr>) (events svc)\<rparr>"
      using shape by simp
    also have "\<dots> = r" by (simp add: r_def)
    finally show ?thesis .
  qed
  have "events svc' \<noteq> []" using ev False by simp
  then show ?thesis using again run by (simp add: filter_service_def)
qed

lemma mapM_e_fixed:
  "mapM_e f xs = Inr ys \<Longrightarrow> (\<And>x y. f x = Inr y \<Longrightarrow> f y = Inr y) \<Longrightarrow> mapM_e f ys = Inr ys"
proof (induction xs arbitrary: ys)
  case Nil
  then show ?case by simp
next
  case (Cons x xs)
  from Cons.prems(1) obtain z zs where z: "f x = Inr z" "mapM_e f xs = Inr zs" "ys = z # zs"
    by (auto split: sum.splits)
  have "f z = Inr z" using Cons.prems(2) z(1) by blast
  moreover have "mapM_e f zs = Inr zs" using Cons.IH [OF z(2)] Cons.prems(2) by blast
  ultimately show ?case using z(3) by simp
qed

lemma filter_rakecycle_fixed:
  "filter_rakecycle services (filter_rakecycle services rc) = filter_rakecycle services rc"
  by (simp add: filter_rakecycle_def has_path_def)

lemma applyServiceFilters_fixed:
  assumes "applyServiceFilters qq tt = Inr tt'"
  shows "applyServiceFilters qq tt' = Inr tt'"
proof -
  obtain services where sv: "mapM_e (filter_service qq) (suburbanServices tt) = Inr services"
      and tt': "tt' = tt\<lparr>suburbanServices := services,
          rakecycles := map (filter_rakecycle services) (rakecycles tt)\<rparr>"
    using assms by (auto simp add: applyServiceFilters_def split: sum.splits)
  have again: "mapM_e (filter_service qq) services = Inr services"
    using mapM_e_fixed [OF sv] filter_service_fixed by blast
  show ?thesis
    using again tt' by (simp add: applyServiceFilters_def filter_rakecycle_fixed comp_def)
qed

text \<open>
  Claim C9. Running the service filter pass on its own result, with the same query,
  gives that result again: the same flag on every event, service and itinerary (a pass
  that raises is its exception, in either run). Every single check leaves the service
  as it is but for the render flag, which it can clear and never set.
\<close>

theorem applyServiceFilters_idempotent:
  "(applyServiceFilters qq tt = Inr tt' \<longrightarrow> applyServiceFilters qq tt' = Inr tt')
   \<and> bind_e (applyServiceFilters qq tt) (applyServiceFilters qq) = applyServiceFilters qq tt
   \<and> (\<forall>check \<in> set service_checks. \<forall>svc'. check qq svc = Inr svc' \<longrightarrow>
         (svc_render svc' \<longrightarrow> svc_render svc) \<and> svc' = svc\<lparr>svc_render := svc_render svc'\<rparr>)"
proof (intro conjI)
  show "applyServiceFilters qq tt = Inr tt' \<longrightarrow> applyServiceFilters qq tt' = Inr tt'"
    using applyServiceFilters_fixed by blast
next
  show "bind_e (applyServiceFilters qq tt) (applyServiceFilters qq) = applyServiceFilters qq tt"
  proof (cases "applyServiceFilters qq tt")
    case (Inl err)
    then show ?thesis by (simp add: bind_e_def)
  next
    case (Inr res)
    then show ?thesis using applyServiceFilters_fixed [OF Inr] by (simp add: bind_e_def)
  qed
next
  show "\<forall>check \<in> set service_checks. \<forall>svc'. check qq svc = Inr svc' \<longrightarrow>
         (svc_render svc' \<longrightarrow> svc_render svc) \<and> svc' = svc\<lparr>svc_render := svc_render svc'\<rparr>"
    using service_checks_narrow [of _ qq svc] unfolding narrows_def by blast
qed

text \<open>Two services of one itinerary and a query for up services from Churchgate
  through Dadar between 07:50 and 08:30.\<close>

definition filter_example :: TimeTable where
  "filter_example =
     \<lparr>suburbanServices =
        [new_Service\<lparr>serviceId := [IntId 93001], direction := Some UP,
           events := [new_StationEvent ''CHURCHGATE'' ''08:00'',
                      new_StationEvent ''DADAR'' ''08:20''],
           svc_render := False\<rparr>,
         new_Service\<lparr>serviceId := [IntId 93002], direction := Some DOWN,
           events := [new_StationEvent ''DADAR'' ''09:00'',
                      new_StationEvent ''CHURCHGATE'' ''09:20'']\<rparr>],
      allCyclesWtt = [[0, 1]],
      rakecycles = [new_RakeCycle ''A''\<lparr>serviceIds := [IntId 93001, IntId 93002],
                      servicePath := Some [0, 1], rc_render := False\<rparr>],
      conflictingLinks = []\<rparr>"

definition filter_query :: FilterQuery where
  "filter_query =
     \<lparr>startStation = Some ''CHURCHGATE'', endStation = None, passingThrough = [''Dadar''],
      inTimePeriod = Some (470, 510), ac = Some ''all'', inDirection = Some [''UP'']\<rparr>"

definition filter_result :: TimeTable where
  "filter_result =
     \<lparr>suburbanServices =
        [new_Service\<lparr>serviceId := [IntId 93001], direction := Some UP,
           events := [new_StationEvent ''CHURCHGATE'' ''08:00'',
                      new_StationEvent ''DADAR'' ''08:20''],
           svc_render := True\<rparr>,
         new_Service\<lparr>serviceId := [IntId 93002], direction := Some DOWN,
           events := [new_StationEvent ''DADAR'' ''09:00'',
                      new_StationEvent ''CHURCHGATE'' ''09:20''],
           svc_render := False\<rparr>],
      allCyclesWtt = [[0, 1]],
      rakecycles = [new_RakeCycle ''A''\<lparr>serviceIds := [IntId 93001, IntId 93002],
                      servicePath := Some [0, 1], rc_render := True\<rparr>],
      conflictingLinks = []\<rparr>"

lemmas filter_eval = applyServiceFilters_def filter_service_def service_checks_def
  checkDirectionConstraint_def checkACConstraint_def checkStartStationConstraint_def
  checkEndStationConstraint_def checkPassingThroughConstraint_def filter_rakecycle_def
  has_path_def given_def unpack_period_def in_window_def py_first_def py_last_def
  stnMapTimes_def upper_def upper_char_def new_Service_def new_RakeCycle_def
  new_StationEvent_def

lemma filter_example_run: "applyServiceFilters filter_query filter_example = Inr filter_result"
  by (simp add: filter_eval codec_eval filter_example_def filter_query_def filter_result_def)

theorem applyServiceFilters_idempotent_witness:
  "applyServiceFilters filter_query filter_example = Inr filter_result
   \<and> applyServiceFilters filter_query filter_result = Inr filter_result
   \<and> map svc_render (suburbanServices filter_result) = [True, False]"
  using filter_example_run
    applyServiceFilters_idempotent [of filter_query filter_example filter_result]
  by (simp add: filter_result_def new_Service_def)

section \<open>Event sequencing: \<^verbatim>\<open>Service.generateStationEvents\<close>\<close>

subsection \<open>The time pattern\<close>

text \<open>
  \<^verbatim>\<open>rTimePattern\<close> is an optional date prefix \<^verbatim>\<open>\d{1,2}/\d{1,2}/\d{2,4}\s+\<close>, an hour
  \<^verbatim>\<open>[01]?\d|2[0-3]\<close>, a colon, minutes \<^verbatim>\<open>[0-5]\d\<close>, optional seconds \<^verbatim>\<open>:[0-5]\d\<close> and
  the end \<^verbatim>\<open>$\<close>, which also stands before one final line feed. The functions below
  decide whether a whole text has that shape.
\<close>

fun hour_ok :: "string \<Rightarrow> bool" where
  "hour_ok [d] = is_digit d"
| "hour_ok [a, b] =
     (((a = CHR ''0'' \<or> a = CHR ''1'') \<and> is_digit b)
      \<or> (a = CHR ''2'' \<and> is_digit b \<and> digit_val b \<le> 3))"
| "hour_ok s = False"

fun sixty_ok :: "string \<Rightarrow> bool" where
  "sixty_ok [a, b] = (is_digit a \<and> digit_val a \<le> 5 \<and> is_digit b)"
| "sixty_ok s = False"

text \<open>The pieces of a text between its colons.\<close>

fun split_colon :: "string \<Rightarrow> string list" where
  "split_colon [] = [[]]"
| "split_colon (c # cs) =
     (if c = CHR '':'' then [] # split_colon cs
      else (case split_colon cs of p # ps \<Rightarrow> (c # p) # ps | [] \<Rightarrow> [[c]]))"

definition time_body_ok :: "string \<Rightarrow> bool" where
  "time_body_ok s =
     (case split_colon s of
        [h, m] \<Rightarrow> hour_ok h \<and> sixty_ok m
      | [h, m, sec] \<Rightarrow> hour_ok h \<and> sixty_ok m \<and> sixty_ok sec
      | _ \<Rightarrow> False)"

text \<open>A run of digits ends at the slash or blank that follows it, so the greedy
  repetitions of the prefix take every digit and every blank in front of them.\<close>

definition dated_time_ok :: "string \<Rightarrow> bool" where
  "dated_time_ok s =
     (let d1 = takeWhile is_digit s; r1 = dropWhile is_digit s
      in 1 \<le> length d1 \<and> length d1 \<le> 2 \<and> r1 \<noteq> [] \<and> hd r1 = CHR ''/'' \<and>
        (let d2 = takeWhile is_digit (tl r1); r2 = dropWhile is_digit (tl r1)
         in 1 \<le> length d2 \<and> length d2 \<le> 2 \<and> r2 \<noteq> [] \<and> hd r2 = CHR ''/'' \<and>
           (let d3 = takeWhile is_digit (tl r2); r3 = dropWhile is_digit (tl r2)
            in 2 \<le> length d3 \<and> length d3 \<le> 4 \<and> takeWhile is_space r3 \<noteq> []
               \<and> time_body_ok (dropWhile is_space r3))))"

definition pattern_ok :: "string \<Rightarrow> bool" where
  "pattern_ok s = (time_body_ok s \<or> dated_time_ok s)"

text \<open>The text up to the place where \<^verbatim>\<open>$\<close> can stand.\<close>

definition before_end :: "string \<Rightarrow> string" where
  "before_end s = (if s \<noteq> [] \<and> last s = CHR 0x0A then butlast s else s)"

text \<open>\<^verbatim>\<open>rTimePattern.search(s)\<close>: the match that starts leftmost, as its
  \<^verbatim>\<open>group(0)\<close>; \<^verbatim>\<open>rTimePattern.match(s)\<close>: whether there is a match from the start.\<close>

fun leftmost_match :: "string \<Rightarrow> string option" where
  "leftmost_match [] = None"
| "leftmost_match (c # cs) = (if pattern_ok (c # cs) then Some (c # cs) else leftmost_match cs)"

definition rTimePattern_search :: "string \<Rightarrow> string option" where
  "rTimePattern_search s = leftmost_match (before_end s)"

definition rTimePattern_match :: "string \<Rightarrow> bool" where
  "rTimePattern_match s = pattern_ok (before_end s)"

subsection \<open>The sheet\<close>

text \<open>
  A cell of the station column or of the indicator column is \<^verbatim>\<open>NaN\<close> or a text. A row
  of the service's sheet is its station label, its indicator and the text of the
  service's own column (\<^verbatim>\<open>rawServiceCol\<close>, where every cell is a text).
\<close>

datatype cell = NaN | Str string

record sheet_row =
  label :: cell
  indicator :: cell
  service_cell :: string

text \<open>\<^verbatim>\<open>sheet.iat[i, _]\<close>: positions count from the end when negative, and a position
  outside the sheet raises \<^verbatim>\<open>IndexError\<close>.\<close>

definition py_index :: "'a list \<Rightarrow> int \<Rightarrow> error + 'a" where
  "py_index xs i =
     (if 0 \<le> i \<and> i < int (length xs) then Inr (xs ! nat i)
      else if - int (length xs) \<le> i \<and> i < 0 then Inr (xs ! nat (int (length xs) + i))
      else Inl IndexError)"

definition label_at :: "sheet_row list \<Rightarrow> int \<Rightarrow> error + cell" where
  "label_at rows i = (case py_index rows i of Inl err \<Rightarrow> Inl err | Inr row \<Rightarrow> Inr (label row))"

text \<open>\<^verbatim>\<open>pd.isna(stName) or not str(stName).strip()\<close>, and \<^verbatim>\<open>str(stName)\<close>.\<close>

definition is_blank :: "cell \<Rightarrow> bool" where
  "is_blank c = (case c of NaN \<Rightarrow> True | Str s \<Rightarrow> strip s = [])"

definition str_cell :: "cell \<Rightarrow> string" where
  "str_cell c = (case c of NaN \<Rightarrow> ''nan'' | Str s \<Rightarrow> s)"

text \<open>The label one row up, or two rows up when that one is blank.\<close>

definition label_above :: "sheet_row list \<Rightarrow> int \<Rightarrow> error + cell" where
  "label_above rows r =
     (case label_at rows (r - 1) of
        Inl err \<Rightarrow> Inl err
      | Inr a \<Rightarrow> if is_blank a then label_at rows (r - 2) else Inr a)"

definition mbai_central_spaced :: string where
  "mbai_central_spaced = ''M'' @ [CHR 0x27] @ ''BAI CENTRAL (L)''"

definition mbai_central :: string where
  "mbai_central = ''M'' @ [CHR 0x27] @ ''BAI CENTRAL(L)''"

text \<open>
  The station of the row \<open>r\<close>: the label of the row or the nearest one above, the two
  renamings, the station of the last event under a \<^verbatim>\<open>REVERSED\<close> label that is no
  station, and at last \<^verbatim>\<open>stName.strip().upper()\<close>, which raises \<^verbatim>\<open>AttributeError\<close> on
  \<^verbatim>\<open>NaN\<close>.
\<close>

definition resolve_station ::
  "string list \<Rightarrow> sheet_row list \<Rightarrow> nat \<Rightarrow> StationEvent list \<Rightarrow> error + string" where
  "resolve_station stations rows r evs =
     (case label_at rows (int r) of
        Inl err \<Rightarrow> Inl err
      | Inr l0 \<Rightarrow>
     (case (if is_blank l0 then label_above rows (int r) else Inr l0) of
        Inl err \<Rightarrow> Inl err
      | Inr l1 \<Rightarrow>
          (let l2 = (if strip (str_cell l1) = mbai_central_spaced then Str mbai_central else l1);
               l3 = (if upper (strip (str_cell l2)) = ''KANDIVLI'' then Str ''KANDIVALI'' else l2)
           in case (if strip (str_cell l3) \<in> set stations then Inr l3
                    else if contains ''REVERSED'' (upper (str_cell l3)) then
                      (case label_above rows (int r) of
                         Inl err \<Rightarrow> Inl err
                       | Inr unused \<Rightarrow>
                           (case py_last evs of
                              Inl err \<Rightarrow> Inl err
                            | Inr ev \<Rightarrow> Inr (Str (atStation ev))))
                    else Inr l3) of
                Inl err \<Rightarrow> Inl err
              | Inr NaN \<Rightarrow> Inl AttributeError
              | Inr (Str s) \<Rightarrow> Inr (upper (strip s)))))"

subsection \<open>The loop over the rows\<close>

text \<open>
  One pass of the loop, for the row at position \<open>r\<close>, from the events so far to the events
  after the pass. The indicator of the next row is read before the arrival event is
  appended, and raises \<^verbatim>\<open>IndexError\<close> when the row is the last of the sheet.
\<close>

definition process_row ::
  "string list \<Rightarrow> sheet_row list \<Rightarrow> nat \<Rightarrow> StationEvent list \<Rightarrow> error + StationEvent list" where
  "process_row stations rows r evs =
     (case rTimePattern_search (service_cell (rows ! r)) of
        None \<Rightarrow> Inr evs
      | Some tCell \<Rightarrow>
     (case resolve_station stations rows r evs of
        Inl err \<Rightarrow> Inl err
      | Inr stName \<Rightarrow>
          if indicator (rows ! r) = Str ''A'' then
            (case py_index rows (int r + 1) of
               Inl err \<Rightarrow> Inl err
             | Inr nxt \<Rightarrow>
                 if indicator nxt = Str ''D''
                    \<and> rTimePattern_match (strip (service_cell nxt))
                 then Inr (evs @ [new_StationEvent stName (strip tCell),
                                  new_StationEvent stName (strip (service_cell nxt))])
                 else Inr (evs @ [new_StationEvent stName (strip tCell)]))
          else Inr (evs @ [new_StationEvent stName (strip tCell)])))"

fun rows_loop ::
  "string list \<Rightarrow> sheet_row list \<Rightarrow> nat list \<Rightarrow> StationEvent list \<Rightarrow> error + StationEvent list"
  where
  "rows_loop stations rows [] evs = Inr evs"
| "rows_loop stations rows (r # rs) evs =
     (case process_row stations rows r evs of
        Inl err \<Rightarrow> Inl err
      | Inr evs' \<Rightarrow> rows_loop stations rows rs evs')"

text \<open>The method: the events of the service after the loop over all rows.\<close>

definition generateStationEvents ::
  "string list \<Rightarrow> sheet_row list \<Rightarrow> Service \<Rightarrow> error + Service" where
  "generateStationEvents stations rows svc =
     (case rows_loop stations rows [0 ..< length rows] (events svc) of
        Inl err \<Rightarrow> Inl err
      | Inr evs \<Rightarrow> Inr (svc\<lparr>events := evs\<rparr>))"

lemma rTimePattern_examples:
  "rTimePattern_search ''08:10'' = Some ''08:10''"
  "rTimePattern_search ''23:59:59'' = Some ''23:59:59''"
  "rTimePattern_search ''24:00'' = Some ''4:00''"
  "rTimePattern_search ''ARR 08:10'' = Some ''08:10''"
  "rTimePattern_search ''1/2/2024 08:10'' = Some ''1/2/2024 08:10''"
  "rTimePattern_search ''93001'' = None"
  "rTimePattern_search ''08:10 '' = None"
  "rTimePattern_match ''x08:10'' = False"
  by (simp_all add: rTimePattern_search_def rTimePattern_match_def before_end_def pattern_ok_def
      time_body_ok_def dated_time_ok_def is_digit_def digit_val_def is_space_def Let_def)

text \<open>
  A sheet of three rows: an arrival at Churchgate, the departure from it on the row
  below, whose station label is blank, and a call at Marine Lines. The three texts are
  the cells of the service's column.
\<close>

definition station_names :: "string list" where
  "station_names = map fst distanceMap"

definition pair_rows :: "string \<Rightarrow> string \<Rightarrow> string \<Rightarrow> sheet_row list" where
  "pair_rows arr dep nxt =
     [\<lparr>label = Str ''CHURCHGATE'', indicator = Str ''A'', service_cell = arr\<rparr>,
      \<lparr>label = NaN, indicator = Str ''D'', service_cell = dep\<rparr>,
      \<lparr>label = Str ''MARINE LINES'', indicator = NaN, service_cell = nxt\<rparr>]"

lemmas pattern_eval = rTimePattern_search_def rTimePattern_match_def before_end_def
  pattern_ok_def time_body_ok_def dated_time_ok_def is_digit_def digit_val_def is_space_def
  Let_def

lemmas station_eval = resolve_station_def label_at_def label_above_def py_index_def
  is_blank_def str_cell_def mbai_central_spaced_def mbai_central_def upper_def upper_char_def
  station_names_def distanceMap_def py_last_def strip_def is_space_def Let_def

lemma pair_rows_stations:
  "resolve_station station_names (pair_rows arr dep nxt) 0 evs = Inr ''CHURCHGATE''"
  "resolve_station station_names (pair_rows arr dep nxt) (Suc 0) evs = Inr ''CHURCHGATE''"
  "resolve_station station_names (pair_rows arr dep nxt) 2 evs = Inr ''MARINE LINES''"
  by (simp_all add: pair_rows_def station_eval)

lemma pair_rows_fields:
  "indicator (pair_rows arr dep nxt ! 0) = Str ''A''"
  "indicator (pair_rows arr dep nxt ! Suc 0) = Str ''D''"
  "indicator (pair_rows arr dep nxt ! 2) = NaN"
  "service_cell (pair_rows arr dep nxt ! 0) = arr"
  "service_cell (pair_rows arr dep nxt ! Suc 0) = dep"
  "service_cell (pair_rows arr dep nxt ! 2) = nxt"
  "py_index (pair_rows arr dep nxt) 1 = Inr (pair_rows arr dep nxt ! Suc 0)"
  "[0 ..< length (pair_rows arr dep nxt)] = [0, Suc 0, 2]"
  by (simp_all add: pair_rows_def py_index_def upt_rec)

text \<open>
  Whenever the three cells match the time pattern, the loop appends four events: the
  arrival and its paired departure in the pass for the arrival row, the departure once
  more in the pass for the departure row, which takes the branch for a row that is no
  arrival, and the call at the next station.
\<close>

lemma pair_rows_events:
  assumes arr: "rTimePattern_search arr = Some tArr"
    and dep: "rTimePattern_search dep = Some tDep" "rTimePattern_match (strip dep)"
    and nxt: "rTimePattern_search nxt = Some tNxt"
  shows "generateStationEvents station_names (pair_rows arr dep nxt) svc
     = Inr (svc\<lparr>events := events svc @
         [new_StationEvent ''CHURCHGATE'' (strip tArr),
          new_StationEvent ''CHURCHGATE'' (strip dep),
          new_StationEvent ''CHURCHGATE'' (strip tDep),
          new_StationEvent ''MARINE LINES'' (strip tNxt)]\<rparr>)"
proof -
  let ?rows = "pair_rows arr dep nxt"
  have r0: "process_row station_names ?rows 0 evs
      = Inr (evs @ [new_StationEvent ''CHURCHGATE'' (strip tArr),
                     new_StationEvent ''CHURCHGATE'' (strip dep)])" for evs
    using arr dep(2) by (simp add: process_row_def pair_rows_stations pair_rows_fields)
  have r1: "process_row station_names ?rows (Suc 0) evs
      = Inr (evs @ [new_StationEvent ''CHURCHGATE'' (strip tDep)])" for evs
    using dep(1) by (simp add: process_row_def pair_rows_stations pair_rows_fields)
  have r2: "process_row station_names ?rows 2 evs
      = Inr (evs @ [new_StationEvent ''MARINE LINES'' (strip tNxt)])" for evs
    using nxt by (simp add: process_row_def pair_rows_stations pair_rows_fields)
  have "rows_loop station_names ?rows [0, Suc 0, 2] (events svc)
      = Inr (events svc @
         [new_StationEvent ''CHURCHGATE'' (strip tArr),
          new_StationEvent ''CHURCHGATE'' (strip dep),
          new_StationEvent ''CHURCHGATE'' (strip tDep),
          new_StationEvent ''MARINE LINES'' (strip tNxt)])"
    by (simp add: r0 r1 r2)
  then show ?thesis
    by (simp add: generateStationEvents_def pair_rows_fields)
qed

lemma clock_text_matches:
  "rTimePattern_search ''08:00'' = Some ''08:00''"
  "rTimePattern_search ''08:02'' = Some ''08:02''"
  "rTimePattern_search ''08:05'' = Some ''08:05''"
  "rTimePattern_search ''02:40'' = Some ''02:40''"
  "rTimePattern_search ''02:50'' = Some ''02:50''"
  "rTimePattern_search ''02:55'' = Some ''02:55''"
  "rTimePattern_match (strip ''08:02'')" "rTimePattern_match (strip ''02:50'')"
  by (simp_all add: pattern_eval strip_def)

lemma clock_text_events:
  "new_StationEvent st (strip ''08:00'') = \<lparr>atStation = st, atTime = Some 480, ev_render = True\<rparr>"
  "new_StationEvent st (strip ''08:02'') = \<lparr>atStation = st, atTime = Some 482, ev_render = True\<rparr>"
  "new_StationEvent st (strip ''08:05'') = \<lparr>atStation = st, atTime = Some 485, ev_render = True\<rparr>"
  "new_StationEvent st (strip ''02:40'') = \<lparr>atStation = st, atTime = Some 1600, ev_render = True\<rparr>"
  "new_StationEvent st (strip ''02:50'') = \<lparr>atStation = st, atTime = Some 170, ev_render = True\<rparr>"
  "new_StationEvent st (strip ''02:55'') = \<lparr>atStation = st, atTime = Some 175, ev_render = True\<rparr>"
  by (simp_all add: new_StationEvent_def codec_eval)

text \<open>
  Claim C4 (the code departs from it). An arrival at 08:00 with the departure at 08:02 on
  the next row: the claim gives the station the arrival event and exactly one departure
  event. The code gives it three events, the departure twice, because the departure row
  is matched again in its own pass.
\<close>

theorem generateStationEvents_departure_twice:
  "generateStationEvents station_names (pair_rows ''08:00'' ''08:02'' ''08:05'')
       (new_Service\<lparr>direction := Some UP\<rparr>)
     = Inr (new_Service\<lparr>direction := Some UP, events :=
         [\<lparr>atStation = ''CHURCHGATE'', atTime = Some 480, ev_render = True\<rparr>,
          \<lparr>atStation = ''CHURCHGATE'', atTime = Some 482, ev_render = True\<rparr>,
          \<lparr>atStation = ''CHURCHGATE'', atTime = Some 482, ev_render = True\<rparr>,
          \<lparr>atStation = ''MARINE LINES'', atTime = Some 485, ev_render = True\<rparr>]\<rparr>)"
  using pair_rows_events [of "''08:00''" "''08:00''" "''08:02''" "''08:02''" "''08:05''" "''08:05''"
      "new_Service\<lparr>direction := Some UP\<rparr>"]
  by (simp add: clock_text_matches clock_text_events new_Service_def)

text \<open>
  The same rows across the turn of the traffic day at 02:45: the arrival at 02:40 is
  coded 1600 and the departure at 02:50 is coded 170, so the times of the pair decrease.
\<close>

lemma generateStationEvents_wrap_around:
  "generateStationEvents station_names (pair_rows ''02:40'' ''02:50'' ''02:55'')
       (new_Service\<lparr>direction := Some UP\<rparr>)
     = Inr (new_Service\<lparr>direction := Some UP, events :=
         [\<lparr>atStation = ''CHURCHGATE'', atTime = Some 1600, ev_render = True\<rparr>,
          \<lparr>atStation = ''CHURCHGATE'', atTime = Some 170, ev_render = True\<rparr>,
          \<lparr>atStation = ''CHURCHGATE'', atTime = Some 170, ev_render = True\<rparr>,
          \<lparr>atStation = ''MARINE LINES'', atTime = Some 175, ev_render = True\<rparr>]\<rparr>)"
  using pair_rows_events [of "''02:40''" "''02:40''" "''02:50''" "''02:50''" "''02:55''" "''02:55''"
      "new_Service\<lparr>direction := Some UP\<rparr>"]
  by (simp add: clock_text_matches clock_text_events new_Service_def)

text \<open>A departure cell that ends in a no-break space is stripped and paired as well.\<close>

lemma departure_cell_no_break_space:
  "rTimePattern_match (strip (''08:05'' @ [CHR 0xA0]))"
  by (simp add: pattern_eval strip_def)

end
